theory Spec2Isabelle
  imports Main "HOL-Library.Word"
begin

unbundle bit_operations_syntax

section \<open>The kernel patcher \<^verbatim>\<open>yf_patchkernel.c\<close>\<close>

text \<open>
  The module runs on 32-bit MIPS: an \<^verbatim>\<open>unsigned int\<close> is a 32-bit word and an
  \<^verbatim>\<open>unsigned int *\<close> is a 32-bit byte address. Adding \<open>n\<close> to such a pointer
  moves it by \<open>n\<close> instruction words, that is by \<open>4 * n\<close> bytes, modulo \<open>2^32\<close>.
  \<^verbatim>\<open>NULL\<close> and the "not found" answer of \<^verbatim>\<open>kallsyms_lookup_name\<close> are the address 0.
\<close>

type_synonym u32 = "32 word"
type_synonym addr = "32 word"

definition ptr_add :: "addr \<Rightarrow> u32 \<Rightarrow> addr" where
  "ptr_add p n = p + 4 * n"

subsection \<open>Instruction encodings (the \<^verbatim>\<open>MIPS_*\<close> macros)\<close>

definition MIPS_NOP :: u32 where "MIPS_NOP = 0x00000000"
definition MIPS_ADDIU :: u32 where "MIPS_ADDIU = 0x24000000"
definition MIPS_LW :: u32 where "MIPS_LW = 0x8C000000"
definition MIPS_TNE :: u32 where "MIPS_TNE = 0x00000036"
definition MIPS_RT_MASK :: u32 where "MIPS_RT_MASK = 0x001F0000"
definition MIPS_BASE_SHFT :: nat where "MIPS_BASE_SHFT = 21"
definition MIPS_RT_SHFT :: nat where "MIPS_RT_SHFT = 16"
definition MIPS_REG_V0 :: u32 where "MIPS_REG_V0 = 2"
definition MIPS_REG_A0 :: u32 where "MIPS_REG_A0 = 4"
definition MIPS_TRAP_CODE :: u32 where "MIPS_TRAP_CODE = 0x00000300"
definition MIPS_AND_MASK :: u32 where "MIPS_AND_MASK = 0xFFFFFFFF"

subsection \<open>The patch descriptor (\<^verbatim>\<open>patchEntry_t\<close>)\<close>

text \<open>
  \<open>fname\<close> is a C string pointer: \<open>None\<close> is \<^verbatim>\<open>NULL\<close>, the end-of-list marker.
  \<open>isPatched\<close> is a C \<^verbatim>\<open>int\<close> that the code only tests against zero and sets
  to 0 or 1; it is kept as a 32-bit word.
\<close>

record patchEntry =
  fname :: "string option"
  startAddress :: addr
  startOffset :: u32
  maxOffset :: u32
  lookFor :: u32
  andMask :: u32
  orMask :: u32
  verifyOffset :: u32
  verifyValue :: u32
  verifyAndMask :: u32
  verifyOrMask :: u32
  patchOffset :: u32
  patchValue :: u32
  patchAddress :: addr
  originalValue :: u32
  isPatched :: u32

text \<open>
  A designated initialiser leaves every field it does not name zero. \<open>zeroEntry\<close> is
  the all-zero descriptor; it is also the last entry of each table, whose \<open>fname\<close>
  is \<^verbatim>\<open>NULL\<close>.
\<close>

definition zeroEntry :: patchEntry where
  "zeroEntry = \<lparr> fname = None, startAddress = 0, startOffset = 0, maxOffset = 0,
     lookFor = 0, andMask = 0, orMask = 0, verifyOffset = 0, verifyValue = 0,
     verifyAndMask = 0, verifyOrMask = 0, patchOffset = 0, patchValue = 0,
     patchAddress = 0, originalValue = 0, isPatched = 0 \<rparr>"

text \<open>
  The table \<^verbatim>\<open>patchesForTunDevice\<close>. The value of
  \<^verbatim>\<open>offsetof(struct sk_buff, sk)\<close> comes from the kernel headers the module is built
  against, so it is the parameter \<open>sk\<close>.
\<close>

definition patchesForTunDevice :: "u32 \<Rightarrow> patchEntry list" where
  "patchesForTunDevice sk =
    [ zeroEntry \<lparr> fname := Some ''ip_forward'',
        maxOffset := 10,
        lookFor := MIPS_LW + push_bit MIPS_BASE_SHFT MIPS_REG_A0 + sk,
        andMask := MIPS_AND_MASK - MIPS_RT_MASK,
        patchValue := MIPS_ADDIU + push_bit MIPS_RT_SHFT MIPS_REG_V0 \<rparr>,
      zeroEntry \<lparr> fname := Some ''netif_receive_skb'',
        maxOffset := 10,
        lookFor := MIPS_LW + push_bit MIPS_BASE_SHFT MIPS_REG_A0 + sk,
        andMask := MIPS_AND_MASK - MIPS_RT_MASK,
        verifyOffset := 1,
        verifyValue := MIPS_TNE + MIPS_TRAP_CODE,
        verifyAndMask := MIPS_AND_MASK - MIPS_RT_MASK,
        patchOffset := 1,
        patchValue := MIPS_NOP \<rparr>,
      zeroEntry \<lparr> fname := Some ''__netif_receive_skb'',
        maxOffset := 8,
        lookFor := MIPS_LW + push_bit MIPS_BASE_SHFT MIPS_REG_A0 + sk,
        andMask := MIPS_AND_MASK - MIPS_RT_MASK,
        verifyOffset := 1,
        verifyValue := MIPS_TNE + MIPS_TRAP_CODE,
        verifyAndMask := MIPS_AND_MASK - MIPS_RT_MASK,
        patchOffset := 1,
        patchValue := MIPS_NOP \<rparr>,
      zeroEntry ]"

subsection \<open>The machine: kernel memory, its accesses and the kernel log\<close>

text \<open>
  Kernel text is a store of 32-bit words, one per instruction address (instructions are
  4-byte aligned, so two different instruction addresses name two different words). The
  descriptors live in the module's own data and are passed around as values. Every
  dereference for reading is recorded in \<open>reads\<close>, every store in \<open>writes\<close>, and every
  \<^verbatim>\<open>YF_INFO\<close> line in \<open>klog\<close>, each in program order.
\<close>

datatype message =
    InitStarted
  | ErrorsExpected
  | UnableToLocate string
  | PatchingFunction string addr
  | FoundPatched u32 addr
  | FoundToPatch u32 addr u32
  | NoInstructionFound string
  | ReversedPatch string addr u32
  | PatchesApplied u32
  | ModuleRemoved
  | AllReversed

record machine =
  mem :: "addr \<Rightarrow> u32"
  reads :: "addr list"
  writes :: "(addr \<times> u32) list"
  klog :: "message list"

definition load :: "addr \<Rightarrow> machine \<Rightarrow> machine" where
  "load a m = m \<lparr> reads := reads m @ [a] \<rparr>"

definition store :: "addr \<Rightarrow> u32 \<Rightarrow> machine \<Rightarrow> machine" where
  "store a v m = m \<lparr> mem := (mem m)(a := v), writes := writes m @ [(a, v)] \<rparr>"

definition YF_INFO :: "message \<Rightarrow> machine \<Rightarrow> machine" where
  "YF_INFO msg m = m \<lparr> klog := klog m @ [msg] \<rparr>"

subsection \<open>\<^verbatim>\<open>yf_patchkernel_patch\<close>\<close>

text \<open>
  The statements that patch one instruction (the tail of the loop body, reached when the
  search value matched and the verification, if any, passed). \<open>ptr\<close> is the scan
  position. The value read by \<open>load a\<close> from machine \<open>m\<close> is \<open>mem m a\<close>.
\<close>

definition apply_patch ::
  "patchEntry \<Rightarrow> addr \<Rightarrow> u32 \<Rightarrow> machine \<Rightarrow> patchEntry \<times> u32 \<times> machine" where
  "apply_patch patch ptr patches_applied m =
    (let patch1 = patch \<lparr> patchAddress := ptr_add ptr (patchOffset patch) \<rparr>;
         m1 = load (patchAddress patch1) m;
         patch2 = patch1 \<lparr> originalValue := mem m (patchAddress patch1) \<rparr>;
         m2 = store (patchAddress patch2) (patchValue patch2) m1;
         patch3 = patch2 \<lparr> isPatched := 1 \<rparr>;
         m3 = load (patchAddress patch3) m2;
         m4 = YF_INFO (FoundToPatch (originalValue patch3) (patchAddress patch3)
                (mem m2 (patchAddress patch3))) m3
     in (patch3, patches_applied + 1, m4))"

text \<open>
  The \<^verbatim>\<open>for\<close> loop over the search window, entered with \<open>ptr\<close> at the first
  position and \<open>offset = 0\<close>. \<^verbatim>\<open>break\<close> returns, \<^verbatim>\<open>continue\<close> and the end of the body
  go on with \<open>offset + 1\<close> and \<open>ptr + 1\<close>.
\<close>

function scan_loop ::
  "patchEntry \<Rightarrow> addr \<Rightarrow> u32 \<Rightarrow> u32 \<Rightarrow> machine \<Rightarrow> patchEntry \<times> u32 \<times> machine" where
  "scan_loop patch ptr offset patches_applied m =
    (if offset < maxOffset patch then
       (let m1 = load ptr m;
            val = (mem m ptr AND andMask patch) OR orMask patch;
            m2 = load (ptr_add ptr (patchOffset patch)) m1;
            orgValue = mem m1 (ptr_add ptr (patchOffset patch))
        in if orgValue = patchValue patch then
             (patch, patches_applied,
              YF_INFO (FoundPatched orgValue (ptr_add ptr (patchOffset patch))) m2)
           else if val = lookFor patch then
             (if verifyOffset patch \<noteq> 0 then
                (let m3 = load (ptr_add ptr (verifyOffset patch)) m2;
                     verify = (mem m2 (ptr_add ptr (verifyOffset patch)) AND verifyAndMask patch)
                                OR verifyOrMask patch
                 in if verify \<noteq> verifyValue patch then
                      scan_loop patch (ptr_add ptr 1) (offset + 1) patches_applied m3
                    else apply_patch patch ptr patches_applied m3)
              else apply_patch patch ptr patches_applied m2)
           else scan_loop patch (ptr_add ptr 1) (offset + 1) patches_applied m2)
     else (patch, patches_applied, m))"
  by pat_completeness auto
termination
  apply (relation "measure (\<lambda>(patch, ptr, offset, patches_applied, m).
                     unat (maxOffset patch) - unat offset)")
    apply simp
   apply (simp, unat_arith)
  apply (simp, unat_arith)
  done

declare scan_loop.simps [simp del]

text \<open>
  The body of the \<^verbatim>\<open>while\<close> loop for one descriptor whose \<open>fname\<close> is \<open>name\<close>.
  \<open>kallsyms_lookup_name\<close> is the kernel's symbol lookup; it answers 0 for an unknown
  symbol.
\<close>

definition patch_entry ::
  "(string \<Rightarrow> addr) \<Rightarrow> string \<Rightarrow> patchEntry \<Rightarrow> u32 \<Rightarrow> machine
     \<Rightarrow> patchEntry \<times> u32 \<times> machine" where
  "patch_entry kallsyms_lookup_name name patch patches_applied m =
    (let ptr = kallsyms_lookup_name name
     in if ptr = 0 then (patch, patches_applied, YF_INFO (UnableToLocate name) m)
        else
          (let m1 = YF_INFO (PatchingFunction name ptr) m;
               patch1 = patch \<lparr> startAddress := ptr \<rparr>
           in case scan_loop patch1 (ptr_add ptr (startOffset patch1)) 0 patches_applied m1 of
                (patch2, applied2, m2) \<Rightarrow>
                  if isPatched patch2 = 0
                  then (patch2, applied2, YF_INFO (NoInstructionFound name) m2)
                  else (patch2, applied2, m2)))"

text \<open>
  The \<^verbatim>\<open>while (patch->fname)\<close> loop over the table. The table is a list; the loop stops
  at the first entry whose \<open>fname\<close> is \<^verbatim>\<open>NULL\<close> and leaves it and everything behind it
  alone. A list without such an entry stands for a table whose marker follows its last
  element.
\<close>

fun patch_while ::
  "(string \<Rightarrow> addr) \<Rightarrow> patchEntry list \<Rightarrow> u32 \<Rightarrow> machine
     \<Rightarrow> patchEntry list \<times> u32 \<times> machine" where
  "patch_while kallsyms_lookup_name [] patches_applied m = ([], patches_applied, m)"
| "patch_while kallsyms_lookup_name (patch # rest) patches_applied m =
    (case fname patch of
       None \<Rightarrow> (patch # rest, patches_applied, m)
     | Some name \<Rightarrow>
        (case patch_entry kallsyms_lookup_name name patch patches_applied m of
           (patch', applied', m') \<Rightarrow>
             (case patch_while kallsyms_lookup_name rest applied' m' of
                (rest', applied'', m'') \<Rightarrow> (patch' # rest', applied'', m''))))"

definition yf_patchkernel_patch ::
  "(string \<Rightarrow> addr) \<Rightarrow> patchEntry list \<Rightarrow> machine \<Rightarrow> patchEntry list \<times> u32 \<times> machine" where
  "yf_patchkernel_patch kallsyms_lookup_name patches m =
     patch_while kallsyms_lookup_name patches 0 m"

subsection \<open>\<^verbatim>\<open>yf_patchkernel_restore\<close>\<close>

definition restore_entry :: "string \<Rightarrow> patchEntry \<Rightarrow> machine \<Rightarrow> patchEntry \<times> machine" where
  "restore_entry name patch m =
    (if isPatched patch \<noteq> 0 then
       (let m1 = store (patchAddress patch) (originalValue patch) m;
            patch1 = patch \<lparr> isPatched := 0 \<rparr>;
            m2 = YF_INFO (ReversedPatch name (patchAddress patch1) (originalValue patch1)) m1
        in (patch1, m2))
     else (patch, m))"

fun yf_patchkernel_restore :: "patchEntry list \<Rightarrow> machine \<Rightarrow> patchEntry list \<times> machine" where
  "yf_patchkernel_restore [] m = ([], m)"
| "yf_patchkernel_restore (patch # rest) m =
    (case fname patch of
       None \<Rightarrow> (patch # rest, m)
     | Some name \<Rightarrow>
        (case restore_entry name patch m of
           (patch', m') \<Rightarrow>
             (case yf_patchkernel_restore rest m' of
                (rest', m'') \<Rightarrow> (patch' # rest', m''))))"

subsection \<open>Module entry points\<close>

text \<open>
  \<^verbatim>\<open>yf_patchkernel_init\<close> and \<^verbatim>\<open>yf_patchkernel_exit\<close> work on the module's globals:
  the table and the counter \<^verbatim>\<open>patches_applied\<close>. The first component of the result of
  \<open>yf_patchkernel_init\<close> is its return value.
\<close>

record globals =
  table :: "patchEntry list"
  patches_applied :: u32

definition yf_patchkernel_init ::
  "(string \<Rightarrow> addr) \<Rightarrow> globals \<Rightarrow> machine \<Rightarrow> int \<times> globals \<times> machine" where
  "yf_patchkernel_init kallsyms_lookup_name g m =
    (let m1 = YF_INFO InitStarted m;
         m2 = YF_INFO ErrorsExpected m1
     in case yf_patchkernel_patch kallsyms_lookup_name (table g) m2 of
          (table', n, m3) \<Rightarrow>
            (0, g \<lparr> table := table', patches_applied := n \<rparr>, YF_INFO (PatchesApplied n) m3))"

definition yf_patchkernel_exit :: "globals \<Rightarrow> machine \<Rightarrow> globals \<times> machine" where
  "yf_patchkernel_exit g m =
    (let m1 = YF_INFO ModuleRemoved m
     in case yf_patchkernel_restore (table g) m1 of
          (table', m2) \<Rightarrow> (g \<lparr> table := table' \<rparr>, YF_INFO AllReversed m2))"

section \<open>Notions for the properties\<close>

subsection \<open>The three tests of the loop body, as predicates on the memory\<close>

text \<open>
  At scan position \<open>pos\<close> in memory \<open>\<mu>\<close>: \<open>already_patched\<close> is the first test of the
  loop body (the word at \<open>pos + patchOffset\<close> is the replacement value), \<open>primary_match\<close>
  the second (the masked word at \<open>pos\<close> is the search value), \<open>verify_ok\<close> the third (no
  verification is configured, or the masked word at \<open>pos + verifyOffset\<close> is the expected
  one).
\<close>

definition already_patched :: "patchEntry \<Rightarrow> (addr \<Rightarrow> u32) \<Rightarrow> addr \<Rightarrow> bool" where
  "already_patched patch \<mu> pos = (\<mu> (ptr_add pos (patchOffset patch)) = patchValue patch)"

definition primary_match :: "patchEntry \<Rightarrow> (addr \<Rightarrow> u32) \<Rightarrow> addr \<Rightarrow> bool" where
  "primary_match patch \<mu> pos = ((\<mu> pos AND andMask patch) OR orMask patch = lookFor patch)"

definition verify_ok :: "patchEntry \<Rightarrow> (addr \<Rightarrow> u32) \<Rightarrow> addr \<Rightarrow> bool" where
  "verify_ok patch \<mu> pos =
    (if verifyOffset patch \<noteq> 0
     then (\<mu> (ptr_add pos (verifyOffset patch)) AND verifyAndMask patch) OR verifyOrMask patch
            = verifyValue patch
     else True)"

text \<open>
  The scan passes over a position (goes on to the next one) when the word to patch is not
  yet the replacement value and the position is not a verified match (\<open>passed_over\<close>);
  \<open>passes_over\<close> says so for the \<open>k\<close> positions from \<open>pos\<close> on.
\<close>

definition passed_over :: "patchEntry \<Rightarrow> (addr \<Rightarrow> u32) \<Rightarrow> addr \<Rightarrow> bool" where
  "passed_over patch \<mu> pos =
    (\<not> already_patched patch \<mu> pos \<and> \<not> (primary_match patch \<mu> pos \<and> verify_ok patch \<mu> pos))"

definition passes_over :: "patchEntry \<Rightarrow> (addr \<Rightarrow> u32) \<Rightarrow> addr \<Rightarrow> nat \<Rightarrow> bool" where
  "passes_over patch \<mu> pos k =
    list_all (\<lambda>j. passed_over patch \<mu> (ptr_add pos (of_nat j))) [0..<k]"

text \<open>
  The index of the first position of a window of \<open>n\<close> positions from \<open>pos\<close> on at
  which the search value matches and the verification passes, if there is one.
\<close>

definition first_verified_match ::
  "patchEntry \<Rightarrow> (addr \<Rightarrow> u32) \<Rightarrow> addr \<Rightarrow> nat \<Rightarrow> nat option" where
  "first_verified_match patch \<mu> pos n =
    find (\<lambda>j. primary_match patch \<mu> (ptr_add pos (of_nat j)) \<and>
              verify_ok patch \<mu> (ptr_add pos (of_nat j))) [0..<n]"

text \<open>
  The outcome of scanning \<open>n\<close> positions from \<open>pos\<close> on, in the order of the tests of the
  loop body: the first position at which the word to patch is already \<open>patchValue\<close>, or
  the first verified match, whichever comes first, or neither.
\<close>

datatype scan_outcome = Found addr | AlreadyApplied addr | NotFound

fun scan :: "patchEntry \<Rightarrow> (addr \<Rightarrow> u32) \<Rightarrow> addr \<Rightarrow> nat \<Rightarrow> scan_outcome" where
  "scan p \<mu> pos 0 = NotFound"
| "scan p \<mu> pos (Suc n) =
    (if already_patched p \<mu> pos then AlreadyApplied pos
     else if primary_match p \<mu> pos \<and> verify_ok p \<mu> pos then Found pos
     else scan p \<mu> (ptr_add pos 1) n)"

subsection \<open>The loads of the scan\<close>

text \<open>
  The loads of one iteration that does not stop at the first test: the word at the
  position, the word to patch and, after a match of the search value with a verification
  configured, the word to verify. \<open>probes_n\<close> is the machine after \<open>k\<close> such iterations.
\<close>

definition probes :: "patchEntry \<Rightarrow> addr \<Rightarrow> machine \<Rightarrow> machine" where
  "probes patch ptr m =
    (if primary_match patch (mem m) ptr \<and> verifyOffset patch \<noteq> 0
     then load (ptr_add ptr (verifyOffset patch))
            (load (ptr_add ptr (patchOffset patch)) (load ptr m))
     else load (ptr_add ptr (patchOffset patch)) (load ptr m))"

fun probes_n :: "patchEntry \<Rightarrow> addr \<Rightarrow> nat \<Rightarrow> machine \<Rightarrow> machine" where
  "probes_n p ptr 0 m = m"
| "probes_n p ptr (Suc k) m = probes_n p (ptr_add ptr 1) k (probes p ptr m)"

text \<open>
  \<open>window_positions\<close> lists the positions of a descriptor's search window: the
  addresses of the instruction words \<open>startOffset\<close>, \<dots>, \<open>startOffset + maxOffset - 1\<close>
  counted from the resolved address \<open>base\<close>. \<open>touched\<close> lists the addresses the loop body
  dereferences when it is at position \<open>pos\<close>. \<open>window\<close> is the number of positions the
  loop still has to visit when its counter is \<open>offset\<close>.
\<close>

definition window_positions :: "patchEntry \<Rightarrow> addr \<Rightarrow> addr list" where
  "window_positions patch base =
    map (\<lambda>j. ptr_add base (startOffset patch + of_nat j)) [0..<unat (maxOffset patch)]"

definition touched :: "patchEntry \<Rightarrow> addr \<Rightarrow> addr list" where
  "touched patch pos =
    [pos, ptr_add pos (patchOffset patch)] @
    (if verifyOffset patch \<noteq> 0 then [ptr_add pos (verifyOffset patch)] else [])"

definition window :: "patchEntry \<Rightarrow> u32 \<Rightarrow> nat" where
  "window p offset = unat (maxOffset p) - unat offset"

subsection \<open>Tables, their applied descriptors and the stores of a pass\<close>

text \<open>
  The descriptors a pass works on are those in front of the end-of-list marker
  (\<open>active\<close>); \<open>applied\<close> are those of them whose flag is set. \<open>replay\<close> performs a list
  of stores on a memory. \<open>patch_writes\<close> and \<open>restore_writes\<close> are the stores that patch
  and that restore the applied descriptors of a table, in table order.
\<close>

definition active :: "patchEntry list \<Rightarrow> patchEntry list" where
  "active ps = takeWhile (\<lambda>q. fname q \<noteq> None) ps"

definition applied :: "patchEntry list \<Rightarrow> patchEntry list" where
  "applied ps = filter (\<lambda>q. isPatched q \<noteq> 0) (active ps)"

definition replay :: "(addr \<times> u32) list \<Rightarrow> (addr \<Rightarrow> u32) \<Rightarrow> (addr \<Rightarrow> u32)" where
  "replay ws \<mu> = foldl (\<lambda>\<mu>' (a, v). \<mu>'(a := v)) \<mu> ws"

definition patch_writes :: "patchEntry list \<Rightarrow> (addr \<times> u32) list" where
  "patch_writes ps = map (\<lambda>q. (patchAddress q, patchValue q)) (applied ps)"

definition restore_writes :: "patchEntry list \<Rightarrow> (addr \<times> u32) list" where
  "restore_writes ps = map (\<lambda>q. (patchAddress q, originalValue q)) (applied ps)"

text \<open>
  Two descriptors that differ at most in \<open>startAddress\<close>.
\<close>

definition untouched :: "patchEntry \<Rightarrow> patchEntry \<Rightarrow> bool" where
  "untouched p p' \<longleftrightarrow> (\<exists>b. p' = p\<lparr>startAddress := b\<rparr>)"

subsection \<open>Counting descriptors\<close>

text \<open>
  \<open>resolvable\<close>: the descriptor has a name that the symbol lookup knows.
  \<open>window_has_match\<close>: some position of the descriptor's window, counted from \<open>base\<close>,
  is a verified match in memory \<open>\<mu>\<close>. \<open>static_matches\<close> counts the resolvable
  descriptors in front of the end marker whose window has a match in one given memory.
\<close>

definition resolvable :: "(string \<Rightarrow> addr) \<Rightarrow> patchEntry \<Rightarrow> bool" where
  "resolvable K q = (case fname q of None \<Rightarrow> False | Some name \<Rightarrow> K name \<noteq> 0)"

definition window_has_match :: "patchEntry \<Rightarrow> addr \<Rightarrow> (addr \<Rightarrow> u32) \<Rightarrow> bool" where
  "window_has_match q base \<mu> =
    (first_verified_match q \<mu> (ptr_add base (startOffset q)) (unat (maxOffset q)) \<noteq> None)"

definition static_matches :: "(string \<Rightarrow> addr) \<Rightarrow> (addr \<Rightarrow> u32) \<Rightarrow> patchEntry list \<Rightarrow> nat" where
  "static_matches K \<mu> ps =
    length (filter (\<lambda>q. case fname q of None \<Rightarrow> False
                        | Some name \<Rightarrow> K name \<noteq> 0 \<and> window_has_match q (K name) \<mu>)
              (active ps))"

text \<open>
  \<open>scans\<close> follows the apply pass and lists, for each resolvable descriptor in table
  order, the outcome of its scan and whether its window has a match, both in the memory
  as it is when the pass comes to the descriptor.
\<close>

fun scans ::
  "(string \<Rightarrow> addr) \<Rightarrow> patchEntry list \<Rightarrow> u32 \<Rightarrow> machine \<Rightarrow> (scan_outcome \<times> bool) list" where
  "scans K [] c m = []"
| "scans K (p # rest) c m =
    (case fname p of
       None \<Rightarrow> []
     | Some name \<Rightarrow>
        (if K name = 0 then []
         else [(scan p (mem m) (ptr_add (K name) (startOffset p)) (unat (maxOffset p)),
                window_has_match p (K name) (mem m))]) @
        (case patch_entry K name p c m of (p', c', m') \<Rightarrow> scans K rest c' m'))"

definition is_found :: "scan_outcome \<times> bool \<Rightarrow> bool" where
  "is_found s = (case fst s of Found pos \<Rightarrow> True | _ \<Rightarrow> False)"

subsection \<open>The result fields of a descriptor during the passes\<close>



section \<open>Example inputs\<close>

text \<open>
  Two symbol tables, one that knows two of the three functions of
  \<open>patchesForTunDevice\<close> and one that knows all three; the table's second entry for a
  kernel with \<^verbatim>\<open>offsetof(struct sk_buff, sk) = 16\<close>; a machine that has done nothing yet.
\<close>

definition example_kallsyms :: "string \<Rightarrow> addr" where
  "example_kallsyms name =
    (if name = ''ip_forward'' then 0x80100000
     else if name = ''netif_receive_skb'' then 0x80200000
     else 0)"

definition full_kallsyms :: "string \<Rightarrow> addr" where
  "full_kallsyms name =
    (if name = ''ip_forward'' then 0x80100000
     else if name = ''netif_receive_skb'' then 0x80200000
     else if name = ''__netif_receive_skb'' then 0x80300000
     else 0)"

definition netif_entry :: patchEntry where
  "netif_entry = patchesForTunDevice 16 ! 1"

definition machine_of :: "(addr \<Rightarrow> u32) \<Rightarrow> machine" where
  "machine_of \<mu> = \<lparr> mem = \<mu>, reads = [], writes = [], klog = [] \<rparr>"

text \<open>
  Pieces of kernel text. \<^verbatim>\<open>0x8C820010\<close> is \<^verbatim>\<open>lw v0,16(a0)\<close>, \<^verbatim>\<open>0x8C830010\<close> is
  \<^verbatim>\<open>lw v1,16(a0)\<close>, \<^verbatim>\<open>0x00020336\<close> is \<^verbatim>\<open>tne zero,v0,12\<close>, \<^verbatim>\<open>0x24020000\<close> is
  \<^verbatim>\<open>addiu v0,zero,0\<close>, \<^verbatim>\<open>0x27BDFFE0\<close> is \<^verbatim>\<open>addiu sp,sp,-32\<close> and 0 is \<^verbatim>\<open>nop\<close>.
  \<^item> \<open>plain_text\<close>: no load of the searched form and no nop anywhere;
  \<^item> \<open>reloaded_text\<close>: in \<^verbatim>\<open>netif_receive_skb\<close>, the load and the trap at positions 2 and
    3, the trap already replaced by a nop;
  \<^item> \<open>second_match_text\<close>: in \<^verbatim>\<open>netif_receive_skb\<close>, a load at position 2 that no trap
    follows, then the load and the trap at positions 5 and 6;
  \<^item> \<open>nop_first_text\<close>: in \<^verbatim>\<open>netif_receive_skb\<close>, the load and the trap at positions 5
    and 6, behind a nop at position 1;
  \<^item> \<open>mixed_text\<close>: the load at position 3 of \<^verbatim>\<open>ip_forward\<close>, the load and the nop that
    replaced its trap at positions 2 and 3 of \<^verbatim>\<open>netif_receive_skb\<close>, and neither in
    \<^verbatim>\<open>__netif_receive_skb\<close>.
\<close>

definition plain_text :: "addr \<Rightarrow> u32" where
  "plain_text = (\<lambda>a. 0x27BDFFE0)"

definition reloaded_text :: "addr \<Rightarrow> u32" where
  "reloaded_text = (\<lambda>a. 0x27BDFFE0)(0x80200008 := 0x8C820010, 0x8020000C := 0)"

definition second_match_text :: "addr \<Rightarrow> u32" where
  "second_match_text =
    (\<lambda>a. 0x27BDFFE0)(0x80200008 := 0x8C830010, 0x80200014 := 0x8C820010,
       0x80200018 := 0x00020336)"

definition nop_first_text :: "addr \<Rightarrow> u32" where
  "nop_first_text =
    (\<lambda>a. 0x27BDFFE0)(0x80200004 := 0, 0x80200014 := 0x8C820010, 0x80200018 := 0x00020336)"

definition mixed_text :: "addr \<Rightarrow> u32" where
  "mixed_text =
    (\<lambda>a. 0x27BDFFE0)(0x8010000C := 0x8C820010, 0x80200008 := 0x8C820010, 0x8020000C := 0)"

text \<open>
  The second entry of the table after its patch was applied to \<open>second_match_text\<close>,
  and the text as patched.
\<close>

definition netif_patched :: patchEntry where
  "netif_patched = netif_entry \<lparr> startAddress := 0x80200000, patchAddress := 0x80200018,
     originalValue := 0x00020336, isPatched := 1 \<rparr>"

definition patched_text :: "addr \<Rightarrow> u32" where
  "patched_text = second_match_text(0x80200018 := 0)"

text \<open>
  On \<open>mixed_text\<close> the first entry of the table is patched, the second is found already
  patched and the third finds nothing. \<open>mixed_applied\<close> is the result of the apply pass,
  \<open>mixed_reversed\<close> that of the reverse pass after it.
\<close>

definition mixed_applied :: "patchEntry list \<times> u32 \<times> machine" where
  "mixed_applied =
    yf_patchkernel_patch full_kallsyms (patchesForTunDevice 16) (machine_of mixed_text)"

definition mixed_reversed :: "patchEntry list \<times> machine" where
  "mixed_reversed = yf_patchkernel_restore (fst mixed_applied) (snd (snd mixed_applied))"

text \<open>
  A table of two descriptors for the same function: the first replaces the load
  \<^verbatim>\<open>lw v0,16(a0)\<close> by \<^verbatim>\<open>addiu v0,zero,0\<close>, the second replaces \<^verbatim>\<open>addiu v0,zero,0\<close> by a
  nop. On \<open>mixed_text\<close> both patch the word at position 3 of \<^verbatim>\<open>ip_forward\<close>.
\<close>

definition two_stage_table :: "patchEntry list" where
  "two_stage_table =
    [ zeroEntry \<lparr> fname := Some ''ip_forward'', maxOffset := 10, lookFor := 0x8C820010,
        andMask := 0xFFFFFFFF, patchValue := 0x24020000 \<rparr>,
      zeroEntry \<lparr> fname := Some ''ip_forward'', maxOffset := 10, lookFor := 0x24020000,
        andMask := 0xFFFFFFFF, patchValue := 0 \<rparr>,
      zeroEntry ]"

definition two_stage_applied :: "patchEntry list \<times> u32 \<times> machine" where
  "two_stage_applied =
    yf_patchkernel_patch full_kallsyms two_stage_table (machine_of mixed_text)"

definition two_stage_reversed :: "patchEntry list \<times> machine" where
  "two_stage_reversed =
    yf_patchkernel_restore (fst two_stage_applied) (snd (snd two_stage_applied))"




section \<open>Properties\<close>

subsection \<open>The machine and one iteration of the scan\<close>

lemma load_simps [simp]:
  "mem (load a m) = mem m" "writes (load a m) = writes m" "klog (load a m) = klog m"
  "reads (load a m) = reads m @ [a]"
  by (simp_all add: load_def)

lemma store_simps [simp]:
  "mem (store a v m) = (mem m)(a := v)" "writes (store a v m) = writes m @ [(a, v)]"
  "klog (store a v m) = klog m" "reads (store a v m) = reads m"
  by (simp_all add: store_def)

lemma YF_INFO_simps [simp]:
  "mem (YF_INFO x m) = mem m" "writes (YF_INFO x m) = writes m"
  "klog (YF_INFO x m) = klog m @ [x]" "reads (YF_INFO x m) = reads m"
  by (simp_all add: YF_INFO_def)

lemma probes_simps [simp]:
  "mem (probes p ptr m) = mem m" "writes (probes p ptr m) = writes m"
  "klog (probes p ptr m) = klog m"
  by (simp_all add: probes_def)

lemma scan_loop_done:
  "\<not> offset < maxOffset p \<Longrightarrow> scan_loop p ptr offset c m = (p, c, m)"
  by (subst scan_loop.simps) simp

lemma scan_loop_already:
  "offset < maxOffset p \<Longrightarrow> already_patched p (mem m) ptr \<Longrightarrow>
   scan_loop p ptr offset c m =
     (p, c, YF_INFO (FoundPatched (patchValue p) (ptr_add ptr (patchOffset p)))
              (load (ptr_add ptr (patchOffset p)) (load ptr m)))"
  by (subst scan_loop.simps) (simp add: already_patched_def)

lemma scan_loop_pass:
  "offset < maxOffset p \<Longrightarrow> passed_over p (mem m) ptr \<Longrightarrow>
   scan_loop p ptr offset c m = scan_loop p (ptr_add ptr 1) (offset + 1) c (probes p ptr m)"
  by (subst scan_loop.simps)
     (auto simp add: passed_over_def already_patched_def primary_match_def verify_ok_def
        probes_def Let_def)

lemma scan_loop_hit:
  "offset < maxOffset p \<Longrightarrow> \<not> already_patched p (mem m) ptr \<Longrightarrow>
   primary_match p (mem m) ptr \<Longrightarrow> verify_ok p (mem m) ptr \<Longrightarrow>
   scan_loop p ptr offset c m = apply_patch p ptr c (probes p ptr m)"
  by (subst scan_loop.simps)
     (auto simp add: already_patched_def primary_match_def verify_ok_def
        probes_def Let_def)

lemma probes_n_simps [simp]:
  "mem (probes_n p ptr k m) = mem m" "writes (probes_n p ptr k m) = writes m"
  "klog (probes_n p ptr k m) = klog m"
  by (induction k arbitrary: ptr m) simp_all

lemma passes_over_iff:
  "passes_over p \<mu> pos k \<longleftrightarrow> (\<forall>j<k. passed_over p \<mu> (ptr_add pos (of_nat j)))"
  by (auto simp add: passes_over_def list_all_iff)

lemma ptr_add_0 [simp]: "ptr_add p 0 = p"
  by (simp add: ptr_add_def)

lemma ptr_add_ptr_add: "ptr_add (ptr_add p a) b = ptr_add p (a + b)"
  by (simp add: ptr_add_def algebra_simps)

lemma passes_over_Suc:
  "passes_over p \<mu> pos (Suc k) \<longleftrightarrow>
     passed_over p \<mu> pos \<and> passes_over p \<mu> (ptr_add pos 1) k"
proof -
  have "(\<forall>j<Suc k. passed_over p \<mu> (ptr_add pos (of_nat j))) \<longleftrightarrow>
        passed_over p \<mu> (ptr_add pos (of_nat 0)) \<and>
        (\<forall>j<k. passed_over p \<mu> (ptr_add pos (of_nat (Suc j))))"
    by (metis less_Suc_eq_0_disj)
  then show ?thesis
    by (simp add: passes_over_iff ptr_add_ptr_add)
qed

lemma unat_offset_Suc:
  fixes offset :: u32
  shows "offset < mx \<Longrightarrow> unat (offset + 1) = Suc (unat offset)"
  by unat_arith

lemma scan_loop_passes:
  "unat offset + k \<le> unat (maxOffset p) \<Longrightarrow> passes_over p (mem m) ptr k \<Longrightarrow>
   scan_loop p ptr offset c m =
     scan_loop p (ptr_add ptr (of_nat k)) (offset + of_nat k) c (probes_n p ptr k m)"
proof (induction k arbitrary: ptr offset m)
  case 0
  then show ?case by simp
next
  case (Suc k)
  from Suc.prems(1) have lt: "offset < maxOffset p"
    by (simp add: word_less_nat_alt)
  from Suc.prems(2) have here: "passed_over p (mem m) ptr"
    and rest: "passes_over p (mem (probes p ptr m)) (ptr_add ptr 1) k"
    by (simp_all add: passes_over_Suc)
  from lt Suc.prems(1) have bound: "unat (offset + 1) + k \<le> unat (maxOffset p)"
    by (simp add: unat_offset_Suc)
  have "scan_loop p ptr offset c m =
        scan_loop p (ptr_add ptr 1) (offset + 1) c (probes p ptr m)"
    using lt here by (rule scan_loop_pass)
  also have "\<dots> = scan_loop p (ptr_add (ptr_add ptr 1) (of_nat k)) (offset + 1 + of_nat k) c
                     (probes_n p (ptr_add ptr 1) k (probes p ptr m))"
    using bound rest by (rule Suc.IH)
  finally show ?case
    by (simp add: ptr_add_ptr_add add.assoc)
qed


lemma cfg_startAddress [simp]:
  "already_patched (p\<lparr>startAddress := b\<rparr>) = already_patched p"
  "primary_match (p\<lparr>startAddress := b\<rparr>) = primary_match p"
  "verify_ok (p\<lparr>startAddress := b\<rparr>) = verify_ok p"
  "passed_over (p\<lparr>startAddress := b\<rparr>) = passed_over p"
  "passes_over (p\<lparr>startAddress := b\<rparr>) = passes_over p"
  by (simp_all add: already_patched_def primary_match_def verify_ok_def passed_over_def
      passes_over_def fun_eq_iff)

lemma apply_patch_eq:
  "apply_patch p pos c m =
    (p\<lparr>patchAddress := ptr_add pos (patchOffset p),
        originalValue := mem m (ptr_add pos (patchOffset p)), isPatched := 1\<rparr>,
     c + 1,
     YF_INFO (FoundToPatch (mem m (ptr_add pos (patchOffset p))) (ptr_add pos (patchOffset p))
                (patchValue p))
       (load (ptr_add pos (patchOffset p))
          (store (ptr_add pos (patchOffset p)) (patchValue p)
             (load (ptr_add pos (patchOffset p)) m))))"
  by (simp add: apply_patch_def Let_def)

lemma of_nat_less_maxOffset:
  fixes w :: u32
  shows "k < unat w \<Longrightarrow> of_nat k < w"
proof -
  assume "k < unat w"
  moreover have "unat (of_nat k :: u32) \<le> k"
    by (simp add: unat_of_nat)
  ultimately show ?thesis
    by (simp add: word_less_nat_alt)
qed

subsection \<open>The example inputs, evaluated\<close>

lemmas mips_defs = MIPS_NOP_def MIPS_ADDIU_def MIPS_LW_def MIPS_TNE_def MIPS_RT_MASK_def
  MIPS_BASE_SHFT_def MIPS_RT_SHFT_def MIPS_REG_V0_def MIPS_REG_A0_def MIPS_TRAP_CODE_def
  MIPS_AND_MASK_def

lemma netif_entry_eq:
  "netif_entry = zeroEntry \<lparr> fname := Some ''netif_receive_skb'',
        maxOffset := 10, lookFor := 0x8C800010, andMask := 0xFFE0FFFF,
        verifyOffset := 1, verifyValue := 0x336, verifyAndMask := 0xFFE0FFFF,
        patchOffset := 1, patchValue := 0 \<rparr>"
  by (simp add: netif_entry_def patchesForTunDevice_def mips_defs)

subsection \<open>The test for an already applied patch\<close>

text \<open>
  C1. Take a descriptor whose symbol resolves, and a position \<open>k\<close> of its window that the
  scan reaches (it passed over the \<open>k\<close> positions before it). If the word at that
  position plus \<open>patchOffset\<close> is already \<open>patchValue\<close>, the scan stops there, whether or
  not the search value matches at the position: the only message after the one that
  names the function is "found patched instruction" (followed by "no instruction to patch
  found" when the flag is clear), nothing is written, memory is as before, the descriptor
  is unchanged but for \<open>startAddress\<close> (so a clear \<open>isPatched\<close> stays clear), and the
  counter is not incremented.
\<close>

theorem already_applied_stops:
  assumes "kallsyms_lookup_name name = base" and "base \<noteq> 0"
    and "k < unat (maxOffset p)"
    and "passes_over p (mem m) (ptr_add base (startOffset p)) k"
    and "already_patched p (mem m) (ptr_add base (startOffset p + of_nat k))"
    and "patch_entry kallsyms_lookup_name name p c m = (p', c', m')"
  shows "p' = p\<lparr>startAddress := base\<rparr> \<and> isPatched p' = isPatched p \<and> c' = c \<and>
         writes m' = writes m \<and> mem m' = mem m \<and>
         klog m' = klog m @
           [PatchingFunction name base,
            FoundPatched (patchValue p) (ptr_add base (startOffset p + of_nat k + patchOffset p))]
           @ (if isPatched p = 0 then [NoInstructionFound name] else [])"
proof -
  let ?p = "p\<lparr>startAddress := base\<rparr>"
  let ?m = "YF_INFO (PatchingFunction name base) m"
  let ?start = "ptr_add base (startOffset p)"
  have lt: "(0::u32) + of_nat k < maxOffset ?p"
    using assms(3) by (simp add: of_nat_less_maxOffset)
  have "scan_loop ?p ?start 0 c ?m =
        scan_loop ?p (ptr_add ?start (of_nat k)) (0 + of_nat k) c (probes_n ?p ?start k ?m)"
    using assms(3,4) by (intro scan_loop_passes) simp_all
  also have "\<dots> = (?p, c,
      YF_INFO (FoundPatched (patchValue ?p)
                 (ptr_add (ptr_add ?start (of_nat k)) (patchOffset ?p)))
        (load (ptr_add (ptr_add ?start (of_nat k)) (patchOffset ?p))
           (load (ptr_add ?start (of_nat k)) (probes_n ?p ?start k ?m))))"
    using assms(5) by (intro scan_loop_already lt) (simp add: ptr_add_ptr_add)
  finally show ?thesis
    using assms(1,2,6) by (auto simp add: patch_entry_def Let_def ptr_add_ptr_add)
qed

theorem already_applied_stops_witness:
  "isPatched (fst (patch_entry example_kallsyms ''netif_receive_skb'' netif_entry 0
      (machine_of reloaded_text))) = 0 \<and>
   fst (snd (patch_entry example_kallsyms ''netif_receive_skb'' netif_entry 0
      (machine_of reloaded_text))) = 0 \<and>
   writes (snd (snd (patch_entry example_kallsyms ''netif_receive_skb'' netif_entry 0
      (machine_of reloaded_text)))) = [] \<and>
   klog (snd (snd (patch_entry example_kallsyms ''netif_receive_skb'' netif_entry 0
      (machine_of reloaded_text)))) =
     [PatchingFunction ''netif_receive_skb'' 0x80200000, FoundPatched 0 0x8020000C,
      NoInstructionFound ''netif_receive_skb'']"
proof -
  let ?r = "patch_entry example_kallsyms ''netif_receive_skb'' netif_entry 0
              (machine_of reloaded_text)"
  have 1: "example_kallsyms ''netif_receive_skb'' = 0x80200000"
    by (simp add: example_kallsyms_def)
  have 2: "(0x80200000 :: addr) \<noteq> 0"
    by simp
  have 3: "2 < unat (maxOffset netif_entry)"
    by (simp add: netif_entry_eq zeroEntry_def)
  have 4: "passes_over netif_entry (mem (machine_of reloaded_text))
             (ptr_add 0x80200000 (startOffset netif_entry)) 2"
    by code_simp
  have 5: "already_patched netif_entry (mem (machine_of reloaded_text))
             (ptr_add 0x80200000 (startOffset netif_entry + of_nat 2))"
    by code_simp
  have 6: "?r = (fst ?r, fst (snd ?r), snd (snd ?r))"
    by simp
  from already_applied_stops [OF 1 2 3 4 5 6] show ?thesis
    by (simp add: netif_entry_eq zeroEntry_def machine_of_def ptr_add_def)
qed

subsection \<open>Unverified matches and the first verified match\<close>

text \<open>
  C2, as the code has it. Take a descriptor whose symbol resolves and a position \<open>k\<close> of
  its window. Suppose that at each of the \<open>k\<close> positions before it the word to patch was
  not yet \<open>patchValue\<close> and the position was not a verified match (the search value did
  not match there, or it matched and the verification failed), and that at position \<open>k\<close>
  the word to patch is not \<open>patchValue\<close>, the search value matches and the verification
  passes. Then the scan went past every earlier position, unverified matches included,
  and patches at position \<open>k\<close>: it reports "found instruction to patch" for the word at
  position \<open>k\<close> plus \<open>patchOffset\<close>, writes \<open>patchValue\<close> there, records the address and
  the old word, sets the flag and increments the counter.
\<close>

theorem first_verified_match_is_patched:
  assumes "kallsyms_lookup_name name = base" and "base \<noteq> 0"
    and "k < unat (maxOffset p)"
    and "passes_over p (mem m) (ptr_add base (startOffset p)) k"
    and "\<not> already_patched p (mem m) (ptr_add base (startOffset p + of_nat k))"
    and "primary_match p (mem m) (ptr_add base (startOffset p + of_nat k))"
    and "verify_ok p (mem m) (ptr_add base (startOffset p + of_nat k))"
    and "pa = ptr_add base (startOffset p + of_nat k + patchOffset p)"
    and "patch_entry kallsyms_lookup_name name p c m = (p', c', m')"
  shows "p' = p\<lparr>startAddress := base, patchAddress := pa, originalValue := mem m pa,
                 isPatched := 1\<rparr> \<and>
         c' = c + 1 \<and> writes m' = writes m @ [(pa, patchValue p)] \<and>
         mem m' = (mem m)(pa := patchValue p) \<and>
         klog m' = klog m @
           [PatchingFunction name base, FoundToPatch (mem m pa) pa (patchValue p)]"
proof -
  let ?p = "p\<lparr>startAddress := base\<rparr>"
  let ?m = "YF_INFO (PatchingFunction name base) m"
  let ?start = "ptr_add base (startOffset p)"
  let ?pos = "ptr_add ?start (of_nat k)"
  have lt: "(0::u32) + of_nat k < maxOffset ?p"
    using assms(3) by (simp add: of_nat_less_maxOffset)
  have "scan_loop ?p ?start 0 c ?m =
        scan_loop ?p ?pos (0 + of_nat k) c (probes_n ?p ?start k ?m)"
    using assms(3,4) by (intro scan_loop_passes) simp_all
  also have "\<dots> = apply_patch ?p ?pos c (probes ?p ?pos (probes_n ?p ?start k ?m))"
    using assms(5,6,7) by (intro scan_loop_hit lt) (simp_all add: ptr_add_ptr_add)
  finally show ?thesis
    using assms(1,2,8,9)
    by (auto simp add: patch_entry_def apply_patch_eq Let_def ptr_add_ptr_add)
qed


theorem first_verified_match_is_patched_witness:
  "klog (snd (snd (patch_entry example_kallsyms ''netif_receive_skb'' netif_entry 0
      (machine_of second_match_text)))) =
     [PatchingFunction ''netif_receive_skb'' 0x80200000,
      FoundToPatch 0x00020336 0x80200018 0] \<and>
   writes (snd (snd (patch_entry example_kallsyms ''netif_receive_skb'' netif_entry 0
      (machine_of second_match_text)))) = [(0x80200018, 0)] \<and>
   fst (snd (patch_entry example_kallsyms ''netif_receive_skb'' netif_entry 0
      (machine_of second_match_text))) = 1"
proof -
  let ?r = "patch_entry example_kallsyms ''netif_receive_skb'' netif_entry 0
              (machine_of second_match_text)"
  let ?pos = "ptr_add 0x80200000 (startOffset netif_entry + of_nat 5)"
  have 1: "example_kallsyms ''netif_receive_skb'' = 0x80200000"
    by (simp add: example_kallsyms_def)
  have 2: "(0x80200000 :: addr) \<noteq> 0"
    by simp
  have 3: "5 < unat (maxOffset netif_entry)"
    by (simp add: netif_entry_eq zeroEntry_def)
  have 4: "passes_over netif_entry (mem (machine_of second_match_text))
             (ptr_add 0x80200000 (startOffset netif_entry)) 5"
    by code_simp
  have 5: "\<not> already_patched netif_entry (mem (machine_of second_match_text)) ?pos"
    by code_simp
  have 6: "primary_match netif_entry (mem (machine_of second_match_text)) ?pos"
    by code_simp
  have 7: "verify_ok netif_entry (mem (machine_of second_match_text)) ?pos"
    by code_simp
  have 8: "?r = (fst ?r, fst (snd ?r), snd (snd ?r))"
    by simp
  from first_verified_match_is_patched [OF 1 2 3 4 5 6 7 refl 8] show ?thesis
    by (simp add: netif_entry_eq zeroEntry_def machine_of_def ptr_add_def
        second_match_text_def)
qed

text \<open>
  C2 as stated does not hold: the test for an already applied patch comes first at every
  position. With a nop at position 1, the scan of \<open>netif_receive_skb\<close> stops at position 0
  and reports "found patched instruction", although position 5 is the first position at
  which the load matches and the trap verifies.
\<close>

theorem nop_before_match_counterexample:
  "verifyOffset netif_entry \<noteq> 0 \<and>
   first_verified_match netif_entry nop_first_text
     (ptr_add 0x80200000 (startOffset netif_entry)) (unat (maxOffset netif_entry)) = Some 5 \<and>
   klog (snd (snd (patch_entry example_kallsyms ''netif_receive_skb'' netif_entry 0
      (machine_of nop_first_text)))) =
     [PatchingFunction ''netif_receive_skb'' 0x80200000, FoundPatched 0 0x80200004,
      NoInstructionFound ''netif_receive_skb''] \<and>
   writes (snd (snd (patch_entry example_kallsyms ''netif_receive_skb'' netif_entry 0
      (machine_of nop_first_text)))) = []"
  by code_simp

subsection \<open>The addresses read by the scan\<close>

lemma window_0: "window p offset = 0 \<Longrightarrow> \<not> offset < maxOffset p"
  by (simp add: window_def word_less_nat_alt)

lemma window_Suc:
  assumes "window p offset = Suc n"
  shows "offset < maxOffset p" and "window p (offset + 1) = n"
proof -
  from assms show lt: "offset < maxOffset p"
    by (simp add: window_def word_less_nat_alt)
  from assms show "window p (offset + 1) = n"
    by (simp add: window_def unat_offset_Suc [OF lt])
qed

lemma window_startAddress [simp]: "window (p\<lparr>startAddress := b\<rparr>) = window p"
  by (simp add: window_def fun_eq_iff)

lemma touched_startAddress [simp]: "touched (p\<lparr>startAddress := b\<rparr>) = touched p"
  by (simp add: touched_def fun_eq_iff)

lemma reads_probes:
  "\<exists>rs. reads (probes p ptr m) = reads m @ rs \<and> set rs \<subseteq> set (touched p ptr)"
  by (auto simp add: probes_def touched_def)

lemma reads_scan_loop:
  "window p offset = n \<Longrightarrow>
   \<exists>rs. reads (snd (snd (scan_loop p ptr offset c m))) = reads m @ rs \<and>
        (\<forall>a\<in>set rs. \<exists>j<n. a \<in> set (touched p (ptr_add ptr (of_nat j))))"
proof (induction n arbitrary: ptr offset m)
  case 0
  then show ?case by (simp add: scan_loop_done window_0)
next
  case (Suc n)
  note lt = window_Suc(1) [OF Suc.prems]
  obtain rs0 where rs0: "reads (probes p ptr m) = reads m @ rs0"
    "set rs0 \<subseteq> set (touched p ptr)"
    using reads_probes by blast
  consider (already) "already_patched p (mem m) ptr"
    | (hit) "\<not> already_patched p (mem m) ptr" "primary_match p (mem m) ptr"
        "verify_ok p (mem m) ptr"
    | (pass) "passed_over p (mem m) ptr"
    by (auto simp add: passed_over_def)
  then show ?case
  proof cases
    case already
    have "reads (snd (snd (scan_loop p ptr offset c m))) =
          reads m @ [ptr, ptr_add ptr (patchOffset p)]"
      by (simp add: scan_loop_already [OF lt already])
    moreover have "\<forall>a\<in>set [ptr, ptr_add ptr (patchOffset p)].
        \<exists>j<Suc n. a \<in> set (touched p (ptr_add ptr (of_nat j)))"
      by (auto simp add: touched_def intro!: exI [of _ 0])
    ultimately show ?thesis by blast
  next
    case hit
    let ?pa = "ptr_add ptr (patchOffset p)"
    have "reads (snd (snd (scan_loop p ptr offset c m))) = reads m @ (rs0 @ [?pa, ?pa])"
      by (simp add: scan_loop_hit [OF lt hit] apply_patch_eq rs0(1))
    moreover have "\<forall>a\<in>set (rs0 @ [?pa, ?pa]).
        \<exists>j<Suc n. a \<in> set (touched p (ptr_add ptr (of_nat j)))"
      using rs0(2) by (auto simp add: touched_def intro!: exI [of _ 0])
    ultimately show ?thesis by blast
  next
    case pass
    from Suc.IH [OF window_Suc(2) [OF Suc.prems], of "ptr_add ptr 1" "probes p ptr m"]
    obtain rs where rs:
      "reads (snd (snd (scan_loop p (ptr_add ptr 1) (offset + 1) c (probes p ptr m)))) =
         reads (probes p ptr m) @ rs"
      "\<forall>a\<in>set rs. \<exists>j<n. a \<in> set (touched p (ptr_add (ptr_add ptr 1) (of_nat j)))"
      by blast
    have "reads (snd (snd (scan_loop p ptr offset c m))) = reads m @ (rs0 @ rs)"
      by (simp add: scan_loop_pass [OF lt pass] rs(1) rs0(1))
    moreover have "\<exists>j<Suc n. a \<in> set (touched p (ptr_add ptr (of_nat j)))"
      if "a \<in> set (rs0 @ rs)" for a
    proof (cases "a \<in> set rs0")
      case True
      with rs0(2) show ?thesis by (auto intro!: exI [of _ 0])
    next
      case False
      with that rs(2) obtain j where "j < n"
        "a \<in> set (touched p (ptr_add (ptr_add ptr 1) (of_nat j)))"
        by auto
      then show ?thesis
        by (intro exI [of _ "Suc j"]) (simp add: ptr_add_ptr_add)
    qed
    ultimately show ?thesis by blast
  qed
qed

text \<open>
  C3, as the code has it. The scan of a descriptor takes its positions from the window
  only, and at a position it reads the word at the position, the word at the position
  plus \<open>patchOffset\<close> and, with a verification configured, the word at the position plus
  \<open>verifyOffset\<close>. So every address that the processing of a descriptor reads is one of
  these, for a position of the window; a descriptor whose symbol is unknown reads
  nothing.
\<close>

theorem reads_near_window:
  assumes "patch_entry kallsyms_lookup_name name p c m = (p', c', m')"
  shows "\<exists>rs. reads m' = reads m @ rs \<and>
           (\<forall>a\<in>set rs. \<exists>pos\<in>set (window_positions p (kallsyms_lookup_name name)).
               a \<in> set (touched p pos))"
proof (cases "kallsyms_lookup_name name = 0")
  case True
  with assms show ?thesis
    by (auto simp add: patch_entry_def)
next
  case False
  let ?base = "kallsyms_lookup_name name"
  let ?p = "p\<lparr>startAddress := ?base\<rparr>"
  let ?r = "scan_loop ?p (ptr_add ?base (startOffset p)) 0 c
              (YF_INFO (PatchingFunction name ?base) m)"
  have "window ?p 0 = unat (maxOffset p)"
    by (simp add: window_def)
  from reads_scan_loop [OF this, of "ptr_add ?base (startOffset p)" c
      "YF_INFO (PatchingFunction name ?base) m"]
  obtain rs where rs: "reads (snd (snd ?r)) = reads m @ rs"
    "\<forall>a\<in>set rs. \<exists>j<unat (maxOffset p).
       a \<in> set (touched p (ptr_add (ptr_add ?base (startOffset p)) (of_nat j)))"
    by auto
  have "reads m' = reads (snd (snd ?r))"
    using assms False
    by (auto simp add: patch_entry_def Let_def split: prod.splits if_splits)
  with rs(1) have "reads m' = reads m @ rs" by simp
  moreover have "\<exists>pos\<in>set (window_positions p ?base). a \<in> set (touched p pos)"
    if "a \<in> set rs" for a
  proof -
    from that rs(2) obtain j where "j < unat (maxOffset p)"
      "a \<in> set (touched p (ptr_add ?base (startOffset p + of_nat j)))"
      by (auto simp add: ptr_add_ptr_add)
    then show ?thesis
      by (auto simp add: window_positions_def)
  qed
  ultimately show ?thesis by blast
qed

theorem reads_near_window_witness:
  "reads (snd (snd (patch_entry example_kallsyms ''netif_receive_skb'' netif_entry 0
      (machine_of reloaded_text)))) =
     [0x80200000, 0x80200004, 0x80200004, 0x80200008, 0x80200008, 0x8020000C] \<and>
   list_all
     (\<lambda>a. list_ex (\<lambda>pos. a \<in> set (touched netif_entry pos))
            (window_positions netif_entry (example_kallsyms ''netif_receive_skb'')))
     [0x80200000, 0x80200004, 0x80200004, 0x80200008, 0x80200008, 0x8020000C]"
proof -
  let ?r = "patch_entry example_kallsyms ''netif_receive_skb'' netif_entry 0
              (machine_of reloaded_text)"
  have e: "reads (snd (snd ?r)) =
             [0x80200000, 0x80200004, 0x80200004, 0x80200008, 0x80200008, 0x8020000C]"
    by code_simp
  have "?r = (fst ?r, fst (snd ?r), snd (snd ?r))"
    by simp
  from reads_near_window [OF this] obtain rs
    where "reads (snd (snd ?r)) = reads (machine_of reloaded_text) @ rs"
      and "\<forall>a\<in>set rs.
             \<exists>pos\<in>set (window_positions netif_entry (example_kallsyms ''netif_receive_skb'')).
               a \<in> set (touched netif_entry pos)"
    by blast
  with e show ?thesis
    by (simp add: machine_of_def list_all_iff list_ex_iff)
qed

text \<open>
  C3 as stated does not hold. The second entry of \<open>patchesForTunDevice\<close> has a window of
  10 positions and \<open>patchOffset = 1\<close>; on a text without a match the scan reaches
  position 9 and reads the word at position 10, which is not a position of the window.
\<close>

theorem read_outside_window_counterexample:
  "ptr_add 0x80200000 10 \<in> set (reads (snd (snd
      (patch_entry example_kallsyms ''netif_receive_skb'' netif_entry 0
         (machine_of plain_text))))) \<and>
   ptr_add 0x80200000 10 \<notin> set (window_positions netif_entry 0x80200000)"
  by code_simp

subsection \<open>Reversing one patch\<close>

text \<open>
  C4, as the code has it. For a descriptor whose flag is clear \<open>restore_entry\<close> changes
  neither the descriptor nor the machine. For a descriptor whose flag is set it stores
  \<open>originalValue\<close> at \<open>patchAddress\<close>, reports it and clears the flag; \<open>patchAddress\<close> and
  \<open>originalValue\<close> keep their values, as every other field does. In both cases a second
  call on the result changes nothing.
\<close>

theorem restore_entry_effect:
  assumes "restore_entry name p m = (p', m')"
  shows "(if isPatched p = 0 then p' = p \<and> m' = m
          else p' = p\<lparr>isPatched := 0\<rparr> \<and>
               patchAddress p' = patchAddress p \<and> originalValue p' = originalValue p \<and>
               writes m' = writes m @ [(patchAddress p, originalValue p)] \<and>
               mem m' = (mem m)(patchAddress p := originalValue p) \<and>
               reads m' = reads m \<and>
               klog m' = klog m @ [ReversedPatch name (patchAddress p) (originalValue p)]) \<and>
         restore_entry name p' m' = (p', m')"
  using assms by (auto simp add: restore_entry_def Let_def)

theorem restore_entry_effect_witness:
  "fst (restore_entry ''netif_receive_skb'' netif_patched (machine_of patched_text)) =
     netif_patched\<lparr>isPatched := 0\<rparr> \<and>
   writes (snd (restore_entry ''netif_receive_skb'' netif_patched (machine_of patched_text))) =
     [(0x80200018, 0x00020336)] \<and>
   mem (snd (restore_entry ''netif_receive_skb'' netif_patched (machine_of patched_text)))
     0x80200018 = 0x00020336 \<and>
   restore_entry ''netif_receive_skb'' netif_entry (machine_of patched_text) =
     (netif_entry, machine_of patched_text)"
proof -
  let ?r = "restore_entry ''netif_receive_skb'' netif_patched (machine_of patched_text)"
  let ?s = "restore_entry ''netif_receive_skb'' netif_entry (machine_of patched_text)"
  have 1: "?r = (fst ?r, snd ?r)" and 2: "?s = (fst ?s, snd ?s)"
    by simp_all
  have 3: "isPatched netif_patched \<noteq> 0" and 4: "isPatched netif_entry = 0"
    by (simp_all add: netif_patched_def netif_entry_eq zeroEntry_def)
  from restore_entry_effect [OF 1] restore_entry_effect [OF 2] 3 4 show ?thesis
    by (simp add: netif_patched_def machine_of_def prod_eq_iff)
qed

text \<open>
  C4 as stated does not hold: reversing the applied patch of the example clears the
  flag, and leaves the recorded address and the recorded original word where they were.
\<close>

theorem restore_keeps_result_fields_counterexample:
  "isPatched netif_patched = 1 \<and>
   isPatched (fst (restore_entry ''netif_receive_skb'' netif_patched
      (machine_of patched_text))) = 0 \<and>
   patchAddress (fst (restore_entry ''netif_receive_skb'' netif_patched
      (machine_of patched_text))) = 0x80200018 \<and>
   originalValue (fst (restore_entry ''netif_receive_skb'' netif_patched
      (machine_of patched_text))) = 0x00020336"
  by (simp add: restore_entry_def netif_patched_def Let_def)

text \<open>The whole reverse pass changes nothing when it is run a second time.\<close>

lemma restore_entry_again:
  "restore_entry name p m = (p', m') \<Longrightarrow> restore_entry name p' m' = (p', m')"
  by (auto simp add: restore_entry_def Let_def split: if_splits)

lemma restore_entry_fname:
  "restore_entry name p m = (p', m') \<Longrightarrow> fname p' = fname p"
  by (auto simp add: restore_entry_def Let_def split: if_splits)

lemma yf_patchkernel_restore_again:
  "yf_patchkernel_restore ps m = (ps', m') \<Longrightarrow> yf_patchkernel_restore ps' m' = (ps', m')"
proof (induction ps arbitrary: m ps' m')
  case Nil
  then show ?case by simp
next
  case (Cons p ps)
  show ?case
  proof (cases "fname p")
    case None
    with Cons.prems show ?thesis by auto
  next
    case (Some name)
    obtain p1 m1 where e: "restore_entry name p m = (p1, m1)"
      by (cases "restore_entry name p m")
    obtain ps1 m2 where r: "yf_patchkernel_restore ps m1 = (ps1, m2)"
      by (cases "yf_patchkernel_restore ps m1")
    from Cons.prems Some e r have res: "ps' = p1 # ps1" "m' = m2"
      by simp_all
    have "restore_entry name p1 m2 = (p1, m2)"
      using e by (auto simp add: restore_entry_def Let_def split: if_splits)
    moreover have "fname p1 = Some name"
      using restore_entry_fname [OF e] Some by simp
    moreover note Cons.IH [OF r]
    ultimately show ?thesis
      using res by simp
  qed
qed

subsection \<open>Descriptors whose symbol is unknown\<close>

text \<open>
  C9. When \<^verbatim>\<open>kallsyms_lookup_name\<close> answers 0 for a descriptor's symbol, the descriptor
  is left as it was, nothing is read or written, the counter keeps its value and the
  only effect is the message "unable to locate kernel symbol". The pass then goes on:
  its result for the table is the unchanged descriptor followed by its result for the
  rest of the table, started with the same counter. The module's initialisation returns
  0 whatever the pass did.
\<close>

theorem unknown_symbol_skipped:
  assumes "fname p = Some name" and "kallsyms_lookup_name name = 0"
  shows "patch_entry kallsyms_lookup_name name p c m =
           (p, c, m\<lparr>klog := klog m @ [UnableToLocate name]\<rparr>) \<and>
         patch_while kallsyms_lookup_name (p # rest) c m =
           (case patch_while kallsyms_lookup_name rest c
                   (m\<lparr>klog := klog m @ [UnableToLocate name]\<rparr>) of
              (rest', c', m') \<Rightarrow> (p # rest', c', m')) \<and>
         fst (yf_patchkernel_init kallsyms_lookup_name g m) = 0"
  using assms
  by (simp add: patch_entry_def YF_INFO_def yf_patchkernel_init_def Let_def
      split: prod.splits)

theorem unknown_symbol_skipped_witness:
  "patch_while example_kallsyms
     [netif_entry\<lparr>fname := Some ''__netif_receive_skb''\<rparr>, zeroEntry] 0
     (machine_of plain_text) =
   ([netif_entry\<lparr>fname := Some ''__netif_receive_skb''\<rparr>, zeroEntry], 0,
    \<lparr>mem = plain_text, reads = [], writes = [],
     klog = [UnableToLocate ''__netif_receive_skb'']\<rparr>)"
proof -
  have 1: "fname (netif_entry\<lparr>fname := Some ''__netif_receive_skb''\<rparr>) =
             Some ''__netif_receive_skb''"
    by simp
  have 2: "example_kallsyms ''__netif_receive_skb'' = 0"
    by (simp add: example_kallsyms_def)
  from unknown_symbol_skipped [where kallsyms_lookup_name = example_kallsyms
      and rest = "[zeroEntry]" and c = 0 and m = "machine_of plain_text", OF 1 2]
  show ?thesis
    by (simp add: machine_of_def zeroEntry_def)
qed

subsection \<open>The outcome of a scan\<close>

lemma scan_loop_NotFound:
  "window p offset = n \<Longrightarrow> scan p (mem m) ptr n = NotFound \<Longrightarrow>
   scan_loop p ptr offset c m = (p, c, probes_n p ptr n m)"
proof (induction n arbitrary: ptr offset m)
  case 0
  then show ?case by (simp add: scan_loop_done window_0)
next
  case (Suc n)
  from Suc.prems(2) have here: "passed_over p (mem m) ptr"
    and rest: "scan p (mem (probes p ptr m)) (ptr_add ptr 1) n = NotFound"
    by (simp_all add: passed_over_def split: if_splits)
  show ?case
    using scan_loop_pass [OF window_Suc(1) [OF Suc.prems(1)] here]
      Suc.IH [OF window_Suc(2) [OF Suc.prems(1)] rest]
    by simp
qed

lemma scan_loop_AlreadyApplied:
  "window p offset = n \<Longrightarrow> scan p (mem m) ptr n = AlreadyApplied pos \<Longrightarrow>
   \<exists>m'. scan_loop p ptr offset c m = (p, c, m') \<and> mem m' = mem m \<and> writes m' = writes m"
proof (induction n arbitrary: ptr offset m)
  case 0
  then show ?case by simp
next
  case (Suc n)
  note lt = window_Suc(1) [OF Suc.prems(1)]
  show ?case
  proof (cases "already_patched p (mem m) ptr")
    case True
    with scan_loop_already [OF lt True] show ?thesis by simp
  next
    case False
    with Suc.prems(2) have here: "passed_over p (mem m) ptr"
      and rest: "scan p (mem (probes p ptr m)) (ptr_add ptr 1) n = AlreadyApplied pos"
      by (simp_all add: passed_over_def split: if_splits)
    from Suc.IH [OF window_Suc(2) [OF Suc.prems(1)] rest] scan_loop_pass [OF lt here]
    show ?thesis by simp
  qed
qed

lemma scan_loop_Found:
  "window p offset = n \<Longrightarrow> scan p (mem m) ptr n = Found pos \<Longrightarrow>
   \<exists>m0. scan_loop p ptr offset c m = apply_patch p pos c m0 \<and> mem m0 = mem m \<and>
         writes m0 = writes m"
proof (induction n arbitrary: ptr offset m)
  case 0
  then show ?case by simp
next
  case (Suc n)
  note lt = window_Suc(1) [OF Suc.prems(1)]
  show ?case
  proof (cases "\<not> already_patched p (mem m) ptr \<and> primary_match p (mem m) ptr
                 \<and> verify_ok p (mem m) ptr")
    case True
    with Suc.prems(2) have "pos = ptr" by simp
    with True scan_loop_hit [OF lt, of m ptr c] show ?thesis
      by (intro exI [of _ "probes p ptr m"]) simp
  next
    case False
    with Suc.prems(2) have here: "passed_over p (mem m) ptr"
      and rest: "scan p (mem (probes p ptr m)) (ptr_add ptr 1) n = Found pos"
      by (auto simp add: passed_over_def split: if_splits)
    from Suc.IH [OF window_Suc(2) [OF Suc.prems(1)] rest] scan_loop_pass [OF lt here]
    show ?thesis by simp
  qed
qed

lemma scan_Found_D:
  "scan p \<mu> ptr n = Found pos \<Longrightarrow>
   \<exists>j<n. pos = ptr_add ptr (of_nat j) \<and> \<not> already_patched p \<mu> pos \<and>
     primary_match p \<mu> pos \<and> verify_ok p \<mu> pos"
proof (induction n arbitrary: ptr)
  case 0
  then show ?case by simp
next
  case (Suc n)
  show ?case
  proof (cases "scan p \<mu> (ptr_add ptr 1) n = Found pos \<and> passed_over p \<mu> ptr")
    case True
    with Suc.IH [of "ptr_add ptr 1"] obtain j where "j < n"
      "pos = ptr_add (ptr_add ptr 1) (of_nat j)" "\<not> already_patched p \<mu> pos"
      "primary_match p \<mu> pos" "verify_ok p \<mu> pos"
      by blast
    then show ?thesis
      by (intro exI [of _ "Suc j"]) (simp add: ptr_add_ptr_add)
  next
    case False
    with Suc.prems have "pos = ptr \<and> \<not> already_patched p \<mu> ptr \<and>
        primary_match p \<mu> ptr \<and> verify_ok p \<mu> ptr"
      by (auto simp add: passed_over_def split: if_splits)
    then show ?thesis
      by (intro exI [of _ 0]) simp
  qed
qed

lemma scan_startAddress [simp]: "scan (p\<lparr>startAddress := b\<rparr>) \<mu> pos n = scan p \<mu> pos n"
  by (induction n arbitrary: pos) simp_all

text \<open>
  What the processing of one descriptor does: either it writes nothing and leaves the
  descriptor \<open>untouched\<close>, or the scan found a position and the descriptor is patched
  there.
\<close>

lemma patch_entry_cases:
  assumes "patch_entry K name p c m = (p', c', m')"
  obtains (miss) "untouched p p'" "c' = c" "writes m' = writes m" "mem m' = mem m"
      "K name \<noteq> 0 \<longrightarrow> startAddress p' = K name"
      "K name \<noteq> 0 \<longrightarrow>
         (\<forall>pos. scan p (mem m) (ptr_add (K name) (startOffset p)) (unat (maxOffset p))
                  \<noteq> Found pos)"
  | (hit) pos where "K name \<noteq> 0"
      "scan p (mem m) (ptr_add (K name) (startOffset p)) (unat (maxOffset p)) = Found pos"
      "p' = p\<lparr>startAddress := K name, patchAddress := ptr_add pos (patchOffset p),
               originalValue := mem m (ptr_add pos (patchOffset p)), isPatched := 1\<rparr>"
      "c' = c + 1"
      "writes m' = writes m @ [(ptr_add pos (patchOffset p), patchValue p)]"
      "mem m' = (mem m)(ptr_add pos (patchOffset p) := patchValue p)"
proof (cases "K name = 0")
  case True
  with assms have "p' = p" "c' = c" "writes m' = writes m" "mem m' = mem m"
    by (auto simp add: patch_entry_def)
  moreover have "untouched p p"
    unfolding untouched_def by (rule exI [of _ "startAddress p"]) simp
  ultimately show ?thesis
    using True by (intro miss) simp_all
next
  case False
  let ?p = "p\<lparr>startAddress := K name\<rparr>"
  let ?m = "YF_INFO (PatchingFunction name (K name)) m"
  let ?start = "ptr_add (K name) (startOffset p)"
  have w: "window ?p 0 = unat (maxOffset p)"
    by (simp add: window_def)
  have pe: "(p', c', mem m', writes m') =
      (case scan_loop ?p ?start 0 c ?m of (p2, c2, m2) \<Rightarrow> (p2, c2, mem m2, writes m2))"
    using assms False by (auto simp add: patch_entry_def Let_def split: prod.splits if_splits)
  show ?thesis
  proof (cases "scan p (mem m) ?start (unat (maxOffset p))")
    case (Found pos)
    then have "scan ?p (mem ?m) ?start (unat (maxOffset p)) = Found pos"
      by simp
    from scan_loop_Found [OF w this, of c] obtain m0
      where "scan_loop ?p ?start 0 c ?m = apply_patch ?p pos c m0" "mem m0 = mem m"
        "writes m0 = writes m"
      by auto
    with pe have "p' = p\<lparr>startAddress := K name, patchAddress := ptr_add pos (patchOffset p),
               originalValue := mem m (ptr_add pos (patchOffset p)), isPatched := 1\<rparr>"
      "c' = c + 1"
      "writes m' = writes m @ [(ptr_add pos (patchOffset p), patchValue p)]"
      "mem m' = (mem m)(ptr_add pos (patchOffset p) := patchValue p)"
      by (simp_all add: apply_patch_eq)
    with False Found show ?thesis
      by (intro hit [of pos])
  next
    case (AlreadyApplied pos)
    then have "scan ?p (mem ?m) ?start (unat (maxOffset p)) = AlreadyApplied pos"
      by simp
    from scan_loop_AlreadyApplied [OF w this, of c] pe
    have "p' = ?p" "c' = c" "writes m' = writes m" "mem m' = mem m"
      by auto
    with AlreadyApplied show ?thesis
      by (intro miss) (auto simp add: untouched_def)
  next
    case NotFound
    then have "scan ?p (mem ?m) ?start (unat (maxOffset p)) = NotFound"
      by simp
    from scan_loop_NotFound [OF w this, of c] pe
    have "p' = ?p" "c' = c" "writes m' = writes m" "mem m' = mem m"
      by auto
    with NotFound show ?thesis
      by (intro miss) (auto simp add: untouched_def)
  qed
qed

subsection \<open>The stores of the two passes\<close>

lemma replay_Nil [simp]: "replay [] \<mu> = \<mu>"
  by (simp add: replay_def)

lemma replay_Cons [simp]: "replay ((a, v) # ws) \<mu> = replay ws (\<mu>(a := v))"
  by (simp add: replay_def)

lemma replay_append [simp]: "replay (ws @ ws') \<mu> = replay ws' (replay ws \<mu>)"
  by (simp add: replay_def)

lemma replay_frame: "a \<notin> fst ` set ws \<Longrightarrow> replay ws \<mu> a = \<mu> a"
  by (induction ws arbitrary: \<mu>) auto

lemma active_Cons [simp]:
  "active (p # ps) = (if fname p = None then [] else p # active ps)"
  by (simp add: active_def)

lemma active_Nil [simp]: "active [] = []"
  by (simp add: active_def)

lemma applied_simps [simp]:
  "applied [] = []"
  "applied (p # ps) =
     (if fname p = None then [] else if isPatched p \<noteq> 0 then p # applied ps else applied ps)"
  by (simp_all add: applied_def)

lemma untouched_fields:
  assumes "untouched p p'"
  shows "fname p' = fname p" "isPatched p' = isPatched p" "patchAddress p' = patchAddress p"
    "originalValue p' = originalValue p" "patchValue p' = patchValue p"
  using assms by (auto simp add: untouched_def)

lemma patch_while_effect:
  assumes "patch_while K ps c m = (ps1, c1, m1)" and "\<forall>q\<in>set (active ps). isPatched q = 0"
  shows "writes m1 = writes m @ patch_writes ps1 \<and>
         mem m1 = replay (patch_writes ps1) (mem m) \<and>
         c1 = c + of_nat (length (applied ps1)) \<and>
         map fname ps1 = map fname ps"
  using assms
proof (induction ps arbitrary: c m ps1 c1 m1)
  case Nil
  then show ?case by (simp add: patch_writes_def)
next
  case (Cons p ps)
  show ?case
  proof (cases "fname p")
    case None
    with Cons.prems show ?thesis by (auto simp add: patch_writes_def)
  next
    case (Some name)
    obtain p' c' m' where e: "patch_entry K name p c m = (p', c', m')"
      by (cases "patch_entry K name p c m")
    obtain rest r2 m2 where r: "patch_while K ps c' m' = (rest, r2, m2)"
      by (cases "patch_while K ps c' m'")
    from Cons.prems(1) Some e r have res: "ps1 = p' # rest" "c1 = r2" "m1 = m2"
      by simp_all
    from Cons.prems(2) Some have fresh: "isPatched p = 0" "\<forall>q\<in>set (active ps). isPatched q = 0"
      by simp_all
    note ih = Cons.IH [OF r fresh(2)]
    from e show ?thesis
    proof (cases rule: patch_entry_cases)
      case miss
      with ih res Some fresh(1) untouched_fields [OF miss(1)] show ?thesis
        by (simp add: patch_writes_def)
    next
      case (hit pos)
      with ih res Some show ?thesis
        by (simp add: patch_writes_def fun_upd_def)
    qed
  qed
qed

lemma yf_patchkernel_restore_effect:
  assumes "yf_patchkernel_restore ps m = (ps', m')"
  shows "writes m' = writes m @ restore_writes ps \<and>
         mem m' = replay (restore_writes ps) (mem m) \<and>
         map fname ps' = map fname ps \<and> map startAddress ps' = map startAddress ps"
  using assms
proof (induction ps arbitrary: m ps' m')
  case Nil
  then show ?case by (simp add: restore_writes_def)
next
  case (Cons p ps)
  show ?case
  proof (cases "fname p")
    case None
    with Cons.prems show ?thesis by (auto simp add: restore_writes_def)
  next
    case (Some name)
    obtain p1 m1 where e: "restore_entry name p m = (p1, m1)"
      by (cases "restore_entry name p m")
    obtain ps1 m2 where r: "yf_patchkernel_restore ps m1 = (ps1, m2)"
      by (cases "yf_patchkernel_restore ps m1")
    from Cons.prems Some e r have res: "ps' = p1 # ps1" "m' = m2"
      by simp_all
    from e Cons.IH [OF r] res Some show ?thesis
      by (auto simp add: restore_entry_def restore_writes_def Let_def split: if_splits)
  qed
qed

lemma fst_patch_writes: "fst ` set (patch_writes ps) = patchAddress ` set (applied ps)"
  by (auto simp add: patch_writes_def image_iff)

lemma fst_restore_writes: "fst ` set (restore_writes ps) = patchAddress ` set (applied ps)"
  by (auto simp add: restore_writes_def image_iff)

text \<open>
  C7. Take a table whose descriptors in front of the end marker all have a clear flag,
  run the apply pass and then the reverse pass. The stores of the apply pass are one
  store of \<open>patchValue\<close> at \<open>patchAddress\<close> for each descriptor whose flag the pass set,
  in table order, and nothing else; the stores of the reverse pass are one store of
  \<open>originalValue\<close> at the same address for each of these descriptors, and nothing else.
  Every word at another address has its initial value after any number of these stores,
  in particular after each pass.
\<close>

theorem only_patch_addresses_written:
  assumes "\<forall>q\<in>set (active ps). isPatched q = 0"
    and "yf_patchkernel_patch kallsyms_lookup_name ps m0 = (ps1, n, m1)"
    and "yf_patchkernel_restore ps1 m1 = (ps2, m2)"
  shows "writes m1 = writes m0 @ patch_writes ps1 \<and>
         writes m2 = writes m1 @ restore_writes ps1 \<and>
         fst ` set (patch_writes ps1 @ restore_writes ps1) = patchAddress ` set (applied ps1) \<and>
         (\<forall>a. a \<notin> patchAddress ` set (applied ps1) \<longrightarrow>
            mem m1 a = mem m0 a \<and> mem m2 a = mem m0 a \<and>
            (\<forall>k. replay (take k (patch_writes ps1 @ restore_writes ps1)) (mem m0) a = mem m0 a))"
proof -
  from assms(2) have "patch_while kallsyms_lookup_name ps 0 m0 = (ps1, n, m1)"
    by (simp add: yf_patchkernel_patch_def)
  from patch_while_effect [OF this assms(1)]
  have p: "writes m1 = writes m0 @ patch_writes ps1"
    "mem m1 = replay (patch_writes ps1) (mem m0)"
    by simp_all
  from yf_patchkernel_restore_effect [OF assms(3)]
  have r: "writes m2 = writes m1 @ restore_writes ps1"
    "mem m2 = replay (restore_writes ps1) (mem m1)"
    by simp_all
  have addrs: "fst ` set (patch_writes ps1 @ restore_writes ps1) =
               patchAddress ` set (applied ps1)"
    by (simp add: image_Un fst_patch_writes fst_restore_writes)
  have frame: "mem m1 a = mem m0 a \<and> mem m2 a = mem m0 a \<and>
      (\<forall>k. replay (take k (patch_writes ps1 @ restore_writes ps1)) (mem m0) a = mem m0 a)"
    if "a \<notin> patchAddress ` set (applied ps1)" for a
  proof -
    from that have 1: "a \<notin> fst ` set (patch_writes ps1)" and 2: "a \<notin> fst ` set (restore_writes ps1)"
      by (simp_all add: fst_patch_writes fst_restore_writes)
    have "a \<notin> fst ` set (take k (patch_writes ps1 @ restore_writes ps1))" for k
      using that addrs by (metis image_mono set_take_subset subsetD)
    then have "\<forall>k. replay (take k (patch_writes ps1 @ restore_writes ps1)) (mem m0) a = mem m0 a"
      by (intro allI replay_frame)
    with 1 2 p(2) r(2) show ?thesis
      by (simp add: replay_frame)
  qed
  from p(1) r(1) addrs frame show ?thesis
    by blast
qed

theorem only_patch_addresses_written_witness:
  "fst (snd mixed_applied) = 1 \<and>
   klog (snd (snd mixed_applied)) =
     [PatchingFunction ''ip_forward'' 0x80100000,
      FoundToPatch 0x8C820010 0x8010000C 0x24020000,
      PatchingFunction ''netif_receive_skb'' 0x80200000,
      FoundPatched 0 0x8020000C,
      NoInstructionFound ''netif_receive_skb'',
      PatchingFunction ''__netif_receive_skb'' 0x80300000,
      NoInstructionFound ''__netif_receive_skb''] \<and>
   writes (snd (snd mixed_applied)) = [(0x8010000C, 0x24020000)] \<and>
   writes (snd mixed_reversed) = [(0x8010000C, 0x24020000), (0x8010000C, 0x8C820010)] \<and>
   mem (snd (snd mixed_applied)) 0x80200008 = 0x8C820010 \<and>
   mem (snd mixed_reversed) 0x80200008 = 0x8C820010"
proof -
  have 1: "\<forall>q\<in>set (active (patchesForTunDevice 16)). isPatched q = 0"
    by code_simp
  have 2: "yf_patchkernel_patch full_kallsyms (patchesForTunDevice 16) (machine_of mixed_text) =
           (fst mixed_applied, fst (snd mixed_applied), snd (snd mixed_applied))"
    by (simp add: mixed_applied_def)
  have 3: "yf_patchkernel_restore (fst mixed_applied) (snd (snd mixed_applied)) =
           (fst mixed_reversed, snd mixed_reversed)"
    by (simp add: mixed_reversed_def)
  have 4: "patch_writes (fst mixed_applied) = [(0x8010000C, 0x24020000)]"
    by code_simp
  have 5: "restore_writes (fst mixed_applied) = [(0x8010000C, 0x8C820010)]"
    by code_simp
  have "map patchAddress (applied (fst mixed_applied)) = [0x8010000C]"
    by code_simp
  then have "set (map patchAddress (applied (fst mixed_applied))) = {0x8010000C}"
    by simp
  then have 6: "patchAddress ` set (applied (fst mixed_applied)) = {0x8010000C}"
    by simp
  have 7: "fst (snd mixed_applied) = 1"
    by code_simp
  have 8: "klog (snd (snd mixed_applied)) =
     [PatchingFunction ''ip_forward'' 0x80100000,
      FoundToPatch 0x8C820010 0x8010000C 0x24020000,
      PatchingFunction ''netif_receive_skb'' 0x80200000,
      FoundPatched 0 0x8020000C,
      NoInstructionFound ''netif_receive_skb'',
      PatchingFunction ''__netif_receive_skb'' 0x80300000,
      NoInstructionFound ''__netif_receive_skb'']"
    by code_simp
  have 9: "(0x80200008 :: addr) \<notin> {0x8010000C}"
    by simp
  from only_patch_addresses_written [OF 1 2 3] 7 8 9 show ?thesis
    unfolding 4 5 6 by (simp add: machine_of_def mixed_text_def)
qed

subsection \<open>The resolved address\<close>

lemma patch_entry_fname:
  "patch_entry K name p c m = (p', c', m') \<Longrightarrow> fname p' = fname p"
  by (erule patch_entry_cases) (simp_all add: untouched_fields)

lemma patch_entry_startAddress:
  assumes "patch_entry K name p c m = (p', c', m')" and "K name \<noteq> 0"
  shows "startAddress p' = K name"
  using assms(1)
proof (cases rule: patch_entry_cases)
  case miss
  with assms(2) show ?thesis by simp
next
  case (hit pos)
  then show ?thesis by simp
qed

lemma patch_while_startAddress:
  assumes "patch_while K ps c m = (ps1, c1, m1)" and "i < length (active ps)"
    and "fname (ps ! i) = Some name" and "K name \<noteq> 0"
  shows "startAddress (ps1 ! i) = K name"
  using assms
proof (induction ps arbitrary: c m ps1 c1 m1 i)
  case Nil
  then show ?case by simp
next
  case (Cons p ps)
  from Cons.prems(2) obtain pname where pname: "fname p = Some pname"
    by (cases "fname p") simp_all
  obtain p' c' m' where e: "patch_entry K pname p c m = (p', c', m')"
    by (cases "patch_entry K pname p c m")
  obtain rest r2 m2 where r: "patch_while K ps c' m' = (rest, r2, m2)"
    by (cases "patch_while K ps c' m'")
  from Cons.prems(1) pname e r have res: "ps1 = p' # rest"
    by simp
  show ?case
  proof (cases i)
    case 0
    with Cons.prems(3,4) pname patch_entry_startAddress [OF e] res show ?thesis
      by simp
  next
    case (Suc j)
    with Cons.prems(2,3) pname have "j < length (active ps)" "fname (ps ! j) = Some name"
      by simp_all
    from Cons.IH [OF r this Cons.prems(4)] res Suc show ?thesis
      by simp
  qed
qed

lemma patch_while_fname:
  "patch_while K ps c m = (ps1, c1, m1) \<Longrightarrow> map fname ps1 = map fname ps"
proof (induction ps arbitrary: c m ps1 c1 m1)
  case Nil
  then show ?case by simp
next
  case (Cons p ps)
  show ?case
  proof (cases "fname p")
    case None
    with Cons.prems show ?thesis by auto
  next
    case (Some name)
    obtain p' c' m' where e: "patch_entry K name p c m = (p', c', m')"
      by (cases "patch_entry K name p c m")
    obtain rest r2 m2 where r: "patch_while K ps c' m' = (rest, r2, m2)"
      by (cases "patch_while K ps c' m'")
    from Cons.prems Some e r have "ps1 = p' # rest"
      by simp
    with Cons.IH [OF r] patch_entry_fname [OF e] show ?thesis
      by simp
  qed
qed

text \<open>
  C10. For a descriptor in front of the end marker whose symbol resolves, the apply pass
  leaves the resolved address in \<open>startAddress\<close>, whatever the scan of the descriptor
  and the processing of the later descriptors do, and the reverse pass that follows
  leaves it there.
\<close>

theorem start_address_recorded:
  assumes "yf_patchkernel_patch kallsyms_lookup_name ps m0 = (ps1, n, m1)"
    and "yf_patchkernel_restore ps1 m1 = (ps2, m2)"
    and "i < length (active ps)" and "fname (ps ! i) = Some name"
    and "kallsyms_lookup_name name \<noteq> 0"
  shows "startAddress (ps1 ! i) = kallsyms_lookup_name name \<and>
         startAddress (ps2 ! i) = kallsyms_lookup_name name"
proof -
  from assms(1) have pw: "patch_while kallsyms_lookup_name ps 0 m0 = (ps1, n, m1)"
    by (simp add: yf_patchkernel_patch_def)
  from patch_while_startAddress [OF pw assms(3,4,5)]
  have 1: "startAddress (ps1 ! i) = kallsyms_lookup_name name" .
  from patch_while_fname [OF pw] have "length ps1 = length ps"
    by (metis length_map)
  moreover have "length (active ps) \<le> length ps"
    by (simp add: active_def length_takeWhile_le)
  ultimately have i: "i < length ps1"
    using assms(3) by simp
  from yf_patchkernel_restore_effect [OF assms(2)]
  have m: "map startAddress ps2 = map startAddress ps1" by simp
  then have "length ps2 = length ps1"
    by (metis length_map)
  with i m have "startAddress (ps2 ! i) = startAddress (ps1 ! i)"
    by (metis nth_map)
  with 1 show ?thesis by simp
qed

theorem start_address_recorded_witness:
  "map startAddress (fst mixed_applied) = [0x80100000, 0x80200000, 0x80300000, 0] \<and>
   startAddress (fst mixed_applied ! 1) = 0x80200000 \<and>
   startAddress (fst mixed_reversed ! 1) = 0x80200000 \<and>
   isPatched (fst mixed_applied ! 1) = 0"
proof -
  have 1: "yf_patchkernel_patch full_kallsyms (patchesForTunDevice 16) (machine_of mixed_text) =
           (fst mixed_applied, fst (snd mixed_applied), snd (snd mixed_applied))"
    by (simp add: mixed_applied_def)
  have 2: "yf_patchkernel_restore (fst mixed_applied) (snd (snd mixed_applied)) =
           (fst mixed_reversed, snd mixed_reversed)"
    by (simp add: mixed_reversed_def)
  have 3: "1 < length (active (patchesForTunDevice 16))"
    by code_simp
  have 4: "fname (patchesForTunDevice 16 ! 1) = Some ''netif_receive_skb''"
    by code_simp
  have 5: "full_kallsyms ''netif_receive_skb'' \<noteq> 0"
    by (simp add: full_kallsyms_def)
  have 6: "map startAddress (fst mixed_applied) = [0x80100000, 0x80200000, 0x80300000, 0]"
    by code_simp
  have 7: "isPatched (fst mixed_applied ! 1) = 0"
    by code_simp
  from start_address_recorded [OF 1 2 3 4 5] 6 7 show ?thesis
    by (simp add: full_kallsyms_def)
qed

subsection \<open>Apply, then reverse\<close>

lemma patch_while_append:
  assumes "\<forall>q\<in>set pre. fname q \<noteq> None" and "patch_while K pre c m = (pre1, c1, m1)"
  shows "patch_while K (pre @ rest) c m =
           (case patch_while K rest c1 m1 of (rest1, c2, m2) \<Rightarrow> (pre1 @ rest1, c2, m2))"
  using assms
proof (induction pre arbitrary: c m pre1 c1 m1)
  case Nil
  then show ?case by (simp split: prod.splits)
next
  case (Cons p pre)
  from Cons.prems(1) obtain name where name: "fname p = Some name"
    by auto
  obtain p' c' m' where e: "patch_entry K name p c m = (p', c', m')"
    by (cases "patch_entry K name p c m")
  obtain pre' r2 m2 where r: "patch_while K pre c' m' = (pre', r2, m2)"
    by (cases "patch_while K pre c' m'")
  from Cons.prems(2) name e r have res: "pre1 = p' # pre'" "c1 = r2" "m1 = m2"
    by simp_all
  from Cons.prems(1) have "\<forall>q\<in>set pre. fname q \<noteq> None"
    by simp
  from Cons.IH [OF this r] name e res show ?case
    by (simp split: prod.splits)
qed

lemma applied_append:
  "\<forall>q\<in>set pre. fname q \<noteq> None \<Longrightarrow>
   applied (pre @ rest) = filter (\<lambda>q. isPatched q \<noteq> 0) pre @ applied rest"
  by (induction pre) auto

text \<open>
  C6, as the code has it. Split the table into the descriptors \<open>pre\<close> in front of a
  descriptor \<open>p\<close> and the descriptors \<open>post\<close> behind it; \<open>ma\<close> is the machine when the
  apply pass comes to \<open>p\<close>, \<open>mb\<close> the machine when it has dealt with \<open>p\<close>. If \<open>p\<close> had a
  clear flag and the pass set it, then the recorded \<open>originalValue\<close> is the word that was
  at the recorded \<open>patchAddress\<close> in \<open>ma\<close>, the pass put \<open>patchValue\<close> there, and, if none
  of the applied descriptors behind \<open>p\<close> has the same \<open>patchAddress\<close>, the word at that
  address after the reverse pass over the table is \<open>originalValue\<close> again.
\<close>

theorem apply_reverse_round_trip:
  assumes "\<forall>q\<in>set pre. fname q \<noteq> None" and "fname p = Some name"
    and "patch_while kallsyms_lookup_name pre c0 m0 = (pre1, c1, ma)"
    and "patch_entry kallsyms_lookup_name name p c1 ma = (p1, c2, mb)"
    and "patch_while kallsyms_lookup_name post c2 mb = (post1, c3, m1)"
    and "isPatched p = 0" and "isPatched p1 \<noteq> 0"
    and "\<forall>q\<in>set (applied post1). patchAddress q \<noteq> patchAddress p1"
    and "yf_patchkernel_restore (pre1 @ p1 # post1) m1 = (ps2, m2)"
  shows "patch_while kallsyms_lookup_name (pre @ p # post) c0 m0 = (pre1 @ p1 # post1, c3, m1) \<and>
         originalValue p1 = mem ma (patchAddress p1) \<and>
         mem mb (patchAddress p1) = patchValue p \<and>
         mem m2 (patchAddress p1) = originalValue p1"
proof -
  have whole: "patch_while kallsyms_lookup_name (pre @ p # post) c0 m0 =
               (pre1 @ p1 # post1, c3, m1)"
    using patch_while_append [OF assms(1,3), of "p # post"] assms(2,4,5)
    by simp
  from assms(4) have "originalValue p1 = mem ma (patchAddress p1) \<and>
    mem mb (patchAddress p1) = patchValue p \<and> fname p1 = Some name"
  proof (cases rule: patch_entry_cases)
    case miss
    with assms(6,7) untouched_fields(2) [OF miss(1)] show ?thesis
      by simp
  next
    case (hit pos)
    with assms(2) show ?thesis
      by simp
  qed
  then have fields: "originalValue p1 = mem ma (patchAddress p1)"
    "mem mb (patchAddress p1) = patchValue p" "fname p1 = Some name"
    by simp_all
  from patch_while_fname [OF assms(3)] assms(1) have pre1: "\<forall>q\<in>set pre1. fname q \<noteq> None"
    by (metis (no_types, lifting) image_iff list.set_map)
  have "restore_writes (pre1 @ p1 # post1) =
        map (\<lambda>q. (patchAddress q, originalValue q)) (filter (\<lambda>q. isPatched q \<noteq> 0) pre1) @
        (patchAddress p1, originalValue p1) # restore_writes post1"
    using assms(7) fields(3)
    by (simp add: restore_writes_def applied_append [OF pre1])
  moreover have "patchAddress p1 \<notin> fst ` set (restore_writes post1)"
    using assms(8) by (auto simp add: fst_restore_writes)
  moreover from yf_patchkernel_restore_effect [OF assms(9)]
  have "mem m2 = replay (restore_writes (pre1 @ p1 # post1)) (mem m1)"
    by simp
  ultimately have "mem m2 (patchAddress p1) = originalValue p1"
    by (simp add: replay_frame)
  with whole fields show ?thesis
    by simp
qed

theorem apply_reverse_round_trip_witness:
  "isPatched (fst mixed_applied ! 0) = 1 \<and>
   patchAddress (fst mixed_applied ! 0) = 0x8010000C \<and>
   originalValue (fst mixed_applied ! 0) = 0x8C820010 \<and>
   mixed_text 0x8010000C = 0x8C820010 \<and>
   mem (snd mixed_reversed) 0x8010000C = 0x8C820010"
proof -
  let ?p = "patchesForTunDevice 16 ! 0"
  let ?post = "tl (patchesForTunDevice 16)"
  let ?e = "patch_entry full_kallsyms ''ip_forward'' ?p 0 (machine_of mixed_text)"
  let ?w = "patch_while full_kallsyms ?post (fst (snd ?e)) (snd (snd ?e))"
  let ?r = "yf_patchkernel_restore ([] @ fst ?e # fst ?w) (snd (snd ?w))"
  have 1: "\<forall>q\<in>set []. fname q \<noteq> None"
    by simp
  have 2: "fname ?p = Some ''ip_forward''"
    by code_simp
  have 3: "patch_while full_kallsyms [] 0 (machine_of mixed_text) = ([], 0, machine_of mixed_text)"
    by simp
  have 4: "?e = (fst ?e, fst (snd ?e), snd (snd ?e))"
    by simp
  have 5: "?w = (fst ?w, fst (snd ?w), snd (snd ?w))"
    by simp
  have 6: "isPatched ?p = 0"
    by code_simp
  have 7: "isPatched (fst ?e) \<noteq> 0"
    by code_simp
  have 8: "\<forall>q\<in>set (applied (fst ?w)). patchAddress q \<noteq> patchAddress (fst ?e)"
    by code_simp
  have 9: "?r = (fst ?r, snd ?r)"
    by simp
  have tbl: "patchesForTunDevice 16 = [] @ ?p # ?post"
    by (simp add: patchesForTunDevice_def)
  note rt = apply_reverse_round_trip [OF 1 2 3 4 5 6 7 8 9]
  from rt have whole: "patch_while full_kallsyms ([] @ ?p # ?post) 0 (machine_of mixed_text) =
      ([] @ fst ?e # fst ?w, fst (snd ?w), snd (snd ?w))"
    by (rule conjunct1)
  have a: "mixed_applied = ([] @ fst ?e # fst ?w, fst (snd ?w), snd (snd ?w))"
    unfolding mixed_applied_def yf_patchkernel_patch_def by (subst tbl) (rule whole)
  have b: "mixed_reversed = ?r"
    by (simp only: mixed_reversed_def a fst_conv snd_conv)
  have c: "patchAddress (fst ?e) = 0x8010000C"
    by code_simp
  have d: "originalValue (fst ?e) = 0x8C820010"
    by code_simp
  have e: "isPatched (fst ?e) = 1"
    by code_simp
  have f: "fst mixed_applied ! 0 = fst ?e"
    by (simp only: a fst_conv append_Nil nth_Cons_0)
  from rt have "mem (snd ?r) (patchAddress (fst ?e)) = originalValue (fst ?e)"
    by (elim conjE)
  then have g: "mem (snd mixed_reversed) 0x8010000C = 0x8C820010"
    by (simp only: b c d)
  have h: "mixed_text 0x8010000C = 0x8C820010"
    by (simp add: mixed_text_def)
  from c d e g h show ?thesis
    by (simp only: f simp_thms)
qed

text \<open>
  C6 as stated does not hold. In \<open>two_stage_table\<close> both descriptors are applied to the
  same word: the first records the load as its original value, the second records what
  the first wrote. The reverse pass restores in table order, so the word ends as what the
  first descriptor wrote, not as the load the first descriptor recorded.
\<close>

theorem shared_patch_address_counterexample:
  "isPatched (fst two_stage_applied ! 0) = 1 \<and>
   patchAddress (fst two_stage_applied ! 0) = 0x8010000C \<and>
   originalValue (fst two_stage_applied ! 0) = 0x8C820010 \<and>
   mixed_text 0x8010000C = 0x8C820010 \<and>
   mem (snd two_stage_reversed) 0x8010000C = 0x24020000"
  by code_simp

subsection \<open>The returned count\<close>

lemma scan_Found_has_match:
  assumes "scan p \<mu> (ptr_add base (startOffset p)) (unat (maxOffset p)) = Found pos"
  shows "window_has_match p base \<mu>"
proof -
  from scan_Found_D [OF assms] obtain j where "j < unat (maxOffset p)"
    "primary_match p \<mu> (ptr_add (ptr_add base (startOffset p)) (of_nat j))"
    "verify_ok p \<mu> (ptr_add (ptr_add base (startOffset p)) (of_nat j))"
    by auto
  then show ?thesis
    by (auto simp add: window_has_match_def first_verified_match_def find_None_iff)
qed

lemma scan_not_Found:
  assumes "patch_entry K name p c m = (p', c', m')" and "K name \<noteq> 0"
    and "\<forall>pos. scan p (mem m) (ptr_add (K name) (startOffset p)) (unat (maxOffset p)) \<noteq> Found pos"
  shows "c' = c \<and> writes m' = writes m"
  using assms(1)
proof (cases rule: patch_entry_cases)
  case miss
  then show ?thesis by simp
next
  case (hit pos)
  with assms(3) show ?thesis by simp
qed

lemma patch_while_scans:
  assumes "patch_while K ps c m = (ps1, c1, m1)"
  shows "c1 = c + of_nat (length (filter is_found (scans K ps c m))) \<and>
         length (writes m1) = length (writes m) + length (filter is_found (scans K ps c m)) \<and>
         length (scans K ps c m) = length (filter (resolvable K) (active ps)) \<and>
         (\<forall>s\<in>set (scans K ps c m). is_found s \<longrightarrow> snd s)"
  using assms
proof (induction ps arbitrary: c m ps1 c1 m1)
  case Nil
  then show ?case by simp
next
  case (Cons p ps)
  show ?case
  proof (cases "fname p")
    case None
    with Cons.prems show ?thesis by auto
  next
    case (Some name)
    obtain p' c' m' where e: "patch_entry K name p c m = (p', c', m')"
      by (cases "patch_entry K name p c m")
    obtain rest r2 m2 where r: "patch_while K ps c' m' = (rest, r2, m2)"
      by (cases "patch_while K ps c' m'")
    from Cons.prems Some e r have res: "c1 = r2" "m1 = m2"
      by simp_all
    note ih = Cons.IH [OF r]
    let ?o = "scan p (mem m) (ptr_add (K name) (startOffset p)) (unat (maxOffset p))"
    show ?thesis
    proof (cases "K name = 0")
      case True
      with e have "c' = c" "writes m' = writes m"
        by (auto simp add: patch_entry_def)
      with ih res Some e True show ?thesis
        by (simp add: resolvable_def)
    next
      case False
      show ?thesis
      proof (cases "\<exists>pos. ?o = Found pos")
        case True
        then obtain pos where pos: "?o = Found pos" ..
        from e have "c' = c + 1 \<and> length (writes m') = length (writes m) + 1"
        proof (cases rule: patch_entry_cases)
          case miss
          with \<open>K name \<noteq> 0\<close> pos show ?thesis by simp
        next
          case (hit pos')
          then show ?thesis by simp
        qed
        with ih res Some e \<open>K name \<noteq> 0\<close> pos scan_Found_has_match [OF pos] show ?thesis
          by (simp add: resolvable_def is_found_def add.assoc)
      next
        case False
        with scan_not_Found [OF e \<open>K name \<noteq> 0\<close>] have "c' = c" "writes m' = writes m"
          by simp_all
        moreover from False have "\<not> is_found (?o, b)" for b
          by (cases ?o) (simp_all add: is_found_def)
        ultimately show ?thesis
          using ih res Some e \<open>K name \<noteq> 0\<close>
          by (simp add: resolvable_def)
      qed
    qed
  qed
qed

lemma filter_imp_le:
  "\<forall>x\<in>set xs. P x \<longrightarrow> Q x \<Longrightarrow> length (filter P xs) \<le> length (filter Q xs)"
  by (induction xs) auto

lemma unat_of_nat_le: "unat (of_nat k :: u32) \<le> k"
  by (simp add: unat_of_nat)

text \<open>
  C8, as the code has it. The apply pass returns, modulo \<open>2^32\<close>, the number of
  descriptors whose scan ends with a verified match before any already-patched word;
  each of them is patched by one store, and a scan that ends at an already-patched word
  adds nothing. This number is at most the number \<open>M\<close> of resolvable descriptors in front
  of the end marker, and at most the number of those whose window, in the memory as it
  is when the pass comes to the descriptor, contains a verified match.
\<close>

theorem returned_count_bounded:
  assumes "yf_patchkernel_patch kallsyms_lookup_name ps m0 = (ps1, n, m1)"
  shows "n = of_nat (length (filter is_found (scans kallsyms_lookup_name ps 0 m0))) \<and>
         length (writes m1) =
           length (writes m0) + length (filter is_found (scans kallsyms_lookup_name ps 0 m0)) \<and>
         length (filter is_found (scans kallsyms_lookup_name ps 0 m0)) \<le>
           min (length (filter (resolvable kallsyms_lookup_name) (active ps)))
               (length (filter snd (scans kallsyms_lookup_name ps 0 m0))) \<and>
         unat n \<le>
           min (length (filter (resolvable kallsyms_lookup_name) (active ps)))
               (length (filter snd (scans kallsyms_lookup_name ps 0 m0)))"
proof -
  let ?s = "scans kallsyms_lookup_name ps 0 m0"
  from assms have "patch_while kallsyms_lookup_name ps 0 m0 = (ps1, n, m1)"
    by (simp add: yf_patchkernel_patch_def)
  from patch_while_scans [OF this]
  have n: "n = of_nat (length (filter is_found ?s))"
    and w: "length (writes m1) = length (writes m0) + length (filter is_found ?s)"
    and M: "length ?s = length (filter (resolvable kallsyms_lookup_name) (active ps))"
    and K: "\<forall>s\<in>set ?s. is_found s \<longrightarrow> snd s"
    by simp_all
  have "length (filter is_found ?s) \<le> length ?s"
    by simp
  with M have 1: "length (filter is_found ?s) \<le>
      length (filter (resolvable kallsyms_lookup_name) (active ps))"
    by simp
  from K have 2: "length (filter is_found ?s) \<le> length (filter snd ?s)"
    by (rule filter_imp_le)
  from n have "unat n \<le> length (filter is_found ?s)"
    by (simp add: unat_of_nat_le)
  with n w 1 2 show ?thesis
    by simp
qed

theorem returned_count_bounded_witness:
  "fst (snd mixed_applied) = 1 \<and>
   map fst (scans full_kallsyms (patchesForTunDevice 16) 0 (machine_of mixed_text)) =
     [Found 0x8010000C, AlreadyApplied 0x80200008, NotFound] \<and>
   length (filter (resolvable full_kallsyms) (active (patchesForTunDevice 16))) = 3 \<and>
   length (filter snd (scans full_kallsyms (patchesForTunDevice 16) 0 (machine_of mixed_text)))
     = 1"
proof -
  have 1: "yf_patchkernel_patch full_kallsyms (patchesForTunDevice 16) (machine_of mixed_text) =
           (fst mixed_applied, fst (snd mixed_applied), snd (snd mixed_applied))"
    by (simp add: mixed_applied_def)
  have 2: "map fst (scans full_kallsyms (patchesForTunDevice 16) 0 (machine_of mixed_text)) =
     [Found 0x8010000C, AlreadyApplied 0x80200008, NotFound]"
    by code_simp
  have 3: "length (filter is_found
      (scans full_kallsyms (patchesForTunDevice 16) 0 (machine_of mixed_text))) = 1"
    by code_simp
  have 4: "length (filter (resolvable full_kallsyms) (active (patchesForTunDevice 16))) = 3"
    by code_simp
  have 5: "length (filter snd
      (scans full_kallsyms (patchesForTunDevice 16) 0 (machine_of mixed_text))) = 1"
    by code_simp
  from returned_count_bounded [OF 1] 2 4 5 show ?thesis
    unfolding 3 by simp
qed

text \<open>
  C8 as stated does not hold when the windows are looked at in the memory the pass
  starts from. In \<open>two_stage_table\<close> both descriptors resolve, and only the first has a
  match in its window at the start: the second one's search value is what the first one
  writes. The pass applies both and returns 2.
\<close>

theorem count_exceeds_initial_matches_counterexample:
  "fst (snd two_stage_applied) = 2 \<and>
   length (filter (resolvable full_kallsyms) (active two_stage_table)) = 2 \<and>
   static_matches full_kallsyms mixed_text two_stage_table = 1"
  by code_simp

subsection \<open>The flag and the result fields\<close>





end
